theory Spec2Isabelle
  imports Main
begin

section \<open>Feature layer field schema (nextgisweb/feature_layer/model.py)\<close>

subsection \<open>Python values and exceptions\<close>

text \<open>
  A column value is \<open>None\<close> (Python's \<open>None\<close>) or \<open>Some v\<close>. The test
  \<open>if fld.id:\<close> is Python truthiness of an integer-or-None: false for \<open>None\<close> and
  for \<open>0\<close>.
\<close>

definition truthy :: "int option \<Rightarrow> bool" where
  "truthy v = (case v of None \<Rightarrow> False | Some n \<Rightarrow> n \<noteq> 0)"

text \<open>
  The exceptions the serializer can raise: \<open>ValidationError\<close> carries the id of the
  message \<open>Field not found (ID=%d).\<close>; \<open>KeyError\<close> is \<open>fld['datatype']\<close> on a
  descriptor without that key; \<open>IndexError\<close> is \<open>list.pop\<close> out of range;
  \<open>TypeError\<close> is the lookup of an unhashable id or the \<open>%d\<close> formatting of an id that
  is not a number; \<open>InvalidRequestError\<close> is the ORM refusing to append to the
  collection an object that already has a parent (\<open>single_parent=True\<close>).
\<close>

datatype error = ValidationError int | KeyError string | IndexError | TypeError
  | InvalidRequestError

text \<open>
  A JSON value, as the id of a submitted descriptor may be any. Numbers are integers; a
  number with a fraction is not represented.
\<close>

datatype json = JNull | JBool bool | JInt int | JStr string | JArray "json list"
  | JObject "(string \<times> json) list"

text \<open>Python truthiness of a JSON value: the test \<open>if fldid:\<close>.\<close>

fun truth :: "json \<Rightarrow> bool" where
  "truth JNull = False"
| "truth (JBool b) = b"
| "truth (JInt n) = (n \<noteq> 0)"
| "truth (JStr s) = (s \<noteq> [])"
| "truth (JArray xs) = (xs \<noteq> [])"
| "truth (JObject kvs) = (kvs \<noteq> [])"

subsection \<open>LayerField objects and the layer that owns them\<close>

text \<open>
  The columns of \<open>LayerField\<close>. The columns \<open>id\<close> and \<open>datatype\<close> carry the
  suffix \<open>_col\<close>, their names being taken in HOL. An attribute never assigned is
  \<open>None\<close>, as on a freshly constructed object.
\<close>

record LayerField =
  id_col :: "int option"
  layer_id :: "int option"
  cls :: "string option"
  idx :: "int option"
  keyname :: "string option"
  datatype_col :: "string option"
  display_name :: "string option"
  grid_visibility :: "bool option"

text \<open>
  Field objects are mutable and compared by identity (\<open>f == srlzr.obj.feature_label_field\<close>),
  so they live in a store addressed by position; \<open>fields_rel\<close> (the relationship
  \<open>fields\<close>, a name the record package takes) and \<open>feature_label_field\<close>
  hold addresses. \<open>field_class\<close> is the polymorphic identity of \<open>__field_class__\<close>.
\<close>

record layer =
  store :: "LayerField list"
  fields_rel :: "nat list"
  feature_label_field :: "nat option"
  field_class :: string

text \<open>\<open>obj.__field_class__(datatype=dt)\<close>: a new object, allocated at the end of the store.\<close>

definition new_field :: "string \<Rightarrow> string option \<Rightarrow> LayerField" where
  "new_field ident dt =
     \<lparr>id_col = None, layer_id = None, cls = Some ident, idx = None, keyname = None,
      datatype_col = dt, display_name = None, grid_visibility = None\<rparr>"

subsection \<open>The ordering list of the \<open>fields\<close> relationship\<close>

text \<open>
  \<open>collection_class=ordering_list('idx')\<close>: positions count from 0.
  \<open>_order_entity\<close> leaves an entity that already has a position alone unless asked to
  reorder; \<open>reorder\<close> sweeps the list; \<open>append\<close> orders the new last entity with
  \<open>reorder_on_append = False\<close>; \<open>pop\<close> removes by index and reorders what remains.
  The relationship is declared \<open>single_parent=True\<close>: the append event raises, before the
  list changes, for an object that already has a parent, which for the objects of one
  layer is an object the collection holds; \<open>pop\<close> releases the object it removes.
\<close>

definition order_entity :: "nat \<Rightarrow> nat \<Rightarrow> bool \<Rightarrow> LayerField list \<Rightarrow> LayerField list" where
  "order_entity index entity reorder_flag st =
     (let have = idx (st ! entity) in
      if have \<noteq> None \<and> \<not> reorder_flag then st
      else let should_be = Some (int index) in
        if have \<noteq> should_be then st[entity := (st ! entity)\<lparr>idx := should_be\<rparr>] else st)"

fun reorder_from :: "nat \<Rightarrow> nat list \<Rightarrow> LayerField list \<Rightarrow> LayerField list" where
  "reorder_from index [] st = st"
| "reorder_from index (entity # rest) st =
     reorder_from (Suc index) rest (order_entity index entity True st)"

definition reorder :: "layer \<Rightarrow> layer" where
  "reorder obj = obj\<lparr>store := reorder_from 0 (fields_rel obj) (store obj)\<rparr>"

definition append_ol :: "nat \<Rightarrow> layer \<Rightarrow> error + layer" where
  "append_ol entity obj =
     (if entity \<in> set (fields_rel obj) then Inl InvalidRequestError
      else Inr (obj\<lparr>fields_rel := fields_rel obj @ [entity],
                   store := order_entity (length (fields_rel obj @ [entity]) - 1) entity False
                              (store obj)\<rparr>))"

definition pop_ol :: "nat \<Rightarrow> layer \<Rightarrow> error + layer" where
  "pop_ol index obj =
     (if index < length (fields_rel obj)
      then Inr (reorder (obj\<lparr>fields_rel := take index (fields_rel obj) @ drop (Suc index) (fields_rel obj)\<rparr>))
      else Inl IndexError)"

subsection \<open>Field descriptors\<close>

text \<open>
  One submitted dict. Each entry is \<open>None\<close> when the key is absent and \<open>Some v\<close> when it
  is present with value \<open>v\<close>. The id may be any JSON value; the other values have the
  types of the wire format (strings, booleans) or are \<open>None\<close> (JSON \<open>null\<close>).
\<close>

record field_desc =
  fd_id :: "json option"
  fd_keyname :: "string option option"
  fd_datatype :: "string option option"
  fd_typemod :: "string option option"
  fd_display_name :: "string option option"
  fd_label_field :: "bool option option"
  fd_grid_visibility :: "bool option option"

text \<open>\<open>fld.get('id')\<close>: an absent key reads as \<open>None\<close>.\<close>

definition get_id :: "field_desc \<Rightarrow> json" where
  "get_id fld = (case fd_id fld of None \<Rightarrow> JNull | Some v \<Rightarrow> v)"

text \<open>
  \<open>fldmap.get(fldid)\<close> on a dict keyed by integers: an integer is looked up, a boolean
  as 0 or 1 (it hashes and compares as that integer), a string or \<open>None\<close> is never a
  key, and a list or a dict cannot be hashed.
\<close>

definition fldmap_get :: "(int \<rightharpoonup> nat) \<Rightarrow> json \<Rightarrow> error + nat option" where
  "fldmap_get fldmap fldid =
     (case fldid of
        JInt n \<Rightarrow> Inr (fldmap n)
      | JBool b \<Rightarrow> Inr (fldmap (if b then 1 else 0))
      | JStr s \<Rightarrow> Inr None
      | JNull \<Rightarrow> Inr None
      | JArray xs \<Rightarrow> Inl TypeError
      | JObject kvs \<Rightarrow> Inl TypeError)"

text \<open>\<open>"%d" % fldid\<close>: the integer printed, or a type error for what is not a number.\<close>

definition format_d :: "json \<Rightarrow> error + int" where
  "format_d fldid =
     (case fldid of
        JInt n \<Rightarrow> Inr n
      | JBool b \<Rightarrow> Inr (if b then 1 else 0)
      | _ \<Rightarrow> Inl TypeError)"

text \<open>\<open>fld.get('label_field', False)\<close> as a condition.\<close>

definition label_flag :: "field_desc \<Rightarrow> bool" where
  "label_flag fld = (case fd_label_field fld of Some (Some b) \<Rightarrow> b | _ \<Rightarrow> False)"

subsection \<open>The getter\<close>

text \<open>The \<open>OrderedDict\<close> emitted for one field; \<open>typemod\<close> is always \<open>None\<close>.\<close>

definition to_desc :: "layer \<Rightarrow> nat \<Rightarrow> field_desc" where
  "to_desc obj f =
     \<lparr>fd_id = Some (case id_col (store obj ! f) of None \<Rightarrow> JNull | Some n \<Rightarrow> JInt n),
      fd_keyname = Some (keyname (store obj ! f)),
      fd_datatype = Some (datatype_col (store obj ! f)),
      fd_typemod = Some None,
      fd_display_name = Some (display_name (store obj ! f)),
      fd_label_field = Some (Some (Some f = feature_label_field obj)),
      fd_grid_visibility = Some (grid_visibility (store obj ! f))\<rparr>"

definition getter :: "layer \<Rightarrow> field_desc list" where
  "getter obj = map (to_desc obj) (fields_rel obj)"

subsection \<open>The setter\<close>

text \<open>
  First loop: over the enumerated snapshot of \<open>obj.fields\<close>, last index first; a field
  with a truthy id is entered into \<open>fldmap\<close> and popped from the collection.
\<close>

fun pop_existing ::
  "(nat \<times> nat) list \<Rightarrow> (int \<rightharpoonup> nat) \<Rightarrow> layer \<Rightarrow> error + ((int \<rightharpoonup> nat) \<times> layer)" where
  "pop_existing [] fldmap obj = Inr (fldmap, obj)"
| "pop_existing ((i, fld) # rest) fldmap obj =
     (if truthy (id_col (store obj ! fld))
      then (case pop_ol i obj of
              Inl e \<Rightarrow> Inl e
            | Inr obj' \<Rightarrow> pop_existing rest (fldmap(the (id_col (store obj ! fld)) \<mapsto> fld)) obj')
      else pop_existing rest fldmap obj)"

text \<open>The three conditional attribute assignments of the second loop.\<close>

definition assign_attrs :: "field_desc \<Rightarrow> LayerField \<Rightarrow> LayerField" where
  "assign_attrs fld mfld =
     (let m1 = (case fd_keyname fld of None \<Rightarrow> mfld | Some v \<Rightarrow> mfld\<lparr>keyname := v\<rparr>);
          m2 = (case fd_display_name fld of None \<Rightarrow> m1 | Some v \<Rightarrow> m1\<lparr>display_name := v\<rparr>)
      in (case fd_grid_visibility fld of None \<Rightarrow> m2 | Some v \<Rightarrow> m2\<lparr>grid_visibility := v\<rparr>))"

text \<open>
  Finding \<open>mfld\<close>: a truthy id is looked up in \<open>fldmap\<close> (a miss raises the validation
  error, whose message formats the id); otherwise a new object is constructed from
  \<open>fld['datatype']\<close>.
\<close>

definition find_mfld :: "(int \<rightharpoonup> nat) \<Rightarrow> field_desc \<Rightarrow> layer \<Rightarrow> error + (nat \<times> layer)" where
  "find_mfld fldmap fld obj =
     (let fldid = get_id fld in
      if truth fldid
      then (case fldmap_get fldmap fldid of
              Inl e \<Rightarrow> Inl e
            | Inr None \<Rightarrow>
                (case format_d fldid of Inl e \<Rightarrow> Inl e | Inr n \<Rightarrow> Inl (ValidationError n))
            | Inr (Some mfld) \<Rightarrow> Inr (mfld, obj))
      else (case fd_datatype fld of
              None \<Rightarrow> Inl (KeyError ''datatype'')
            | Some dt \<Rightarrow>
                Inr (length (store obj),
                     obj\<lparr>store := store obj @ [new_field (field_class obj) dt]\<rparr>)))"

text \<open>One iteration of the second loop.\<close>

definition assign_one :: "(int \<rightharpoonup> nat) \<Rightarrow> field_desc \<Rightarrow> layer \<Rightarrow> error + layer" where
  "assign_one fldmap fld obj =
     (case find_mfld fldmap fld obj of
        Inl e \<Rightarrow> Inl e
      | Inr (mfld, obj1) \<Rightarrow>
          (let obj2 = obj1\<lparr>store := (store obj1)[mfld := assign_attrs fld (store obj1 ! mfld)]\<rparr>;
               obj3 = (if label_flag fld then obj2\<lparr>feature_label_field := Some mfld\<rparr> else obj2)
           in append_ol mfld obj3))"

fun assign_fields :: "(int \<rightharpoonup> nat) \<Rightarrow> field_desc list \<Rightarrow> layer \<Rightarrow> error + layer" where
  "assign_fields fldmap [] obj = Inr obj"
| "assign_fields fldmap (fld # value) obj =
     (case assign_one fldmap fld obj of
        Inl e \<Rightarrow> Inl e
      | Inr obj' \<Rightarrow> assign_fields fldmap value obj')"

definition setter :: "layer \<Rightarrow> field_desc list \<Rightarrow> error + layer" where
  "setter obj value =
     (case pop_existing (rev (enumerate 0 (fields_rel obj))) Map.empty obj of
        Inl e \<Rightarrow> Inl e
      | Inr (fldmap, obj1) \<Rightarrow>
          (case assign_fields fldmap value (obj1\<lparr>feature_label_field := None\<rparr>) of
             Inl e \<Rightarrow> Inl e
           | Inr obj2 \<Rightarrow> Inr (reorder obj2)))"

subsection \<open>Notions used to state the serializer's properties\<close>

text \<open>
  Every address held by the collection is an object of the store, as a Python reference
  always is, and no object is held twice, as \<open>single_parent\<close> ensures.
\<close>

definition wf_layer :: "layer \<Rightarrow> bool" where
  "wf_layer obj =
     (distinct (fields_rel obj) \<and> (\<forall>r\<in>set (fields_rel obj). r < length (store obj)))"

text \<open>The existing fields the first loop leaves in the collection: those whose id is falsy.\<close>

definition kept :: "layer \<Rightarrow> nat list" where
  "kept obj = filter (\<lambda>r. \<not> truthy (id_col (store obj ! r))) (fields_rel obj)"

text \<open>
  The integer under which a descriptor's id is looked up in the dict: the id itself when
  it is an integer, 0 or 1 when it is a boolean, none for any other value or no id.
\<close>

definition desc_id :: "field_desc \<Rightarrow> int option" where
  "desc_id fld =
     (case get_id fld of JInt n \<Rightarrow> Some n | JBool b \<Rightarrow> Some (if b then 1 else 0) | _ \<Rightarrow> None)"

text \<open>The submitted id is truthy, as the setter tests it.\<close>

definition id_truthy :: "field_desc \<Rightarrow> bool" where
  "id_truthy fld = truth (get_id fld)"

text \<open>The submitted id is truthy and not a number: a non-empty string, list or dict.\<close>

definition non_integer_id :: "field_desc \<Rightarrow> bool" where
  "non_integer_id fld = (id_truthy fld \<and> desc_id fld = None)"



text \<open>Two stores that agree on every column of every object except \<open>idx\<close>.\<close>

definition same_cols :: "LayerField list \<Rightarrow> LayerField list \<Rightarrow> bool" where
  "same_cols st st' =
     (length st' = length st \<and> (\<forall>r. (st' ! r)\<lparr>idx := None\<rparr> = (st ! r)\<lparr>idx := None\<rparr>))"

text \<open>Object \<open>r\<close> carries the nonzero id \<open>k\<close>.\<close>

definition has_id :: "LayerField list \<Rightarrow> int \<Rightarrow> nat \<Rightarrow> bool" where
  "has_id st k r = (k \<noteq> 0 \<and> id_col (st ! r) = Some k)"

text \<open>
  The dict the first loop builds: iterating from the last field to the first, the entry
  written last for an id is the first field of the collection that carries it.
\<close>

definition fldmap_of :: "layer \<Rightarrow> (int \<rightharpoonup> nat)" where
  "fldmap_of obj = (\<lambda>k. List.find (has_id (store obj) k) (fields_rel obj))"

text \<open>
  The object one iteration of the second loop appends, given the dict and the next free
  address: the looked-up object for a truthy id, a new object otherwise.
\<close>

definition target :: "(int \<rightharpoonup> nat) \<Rightarrow> nat \<Rightarrow> field_desc \<Rightarrow> nat" where
  "target fm n fld = (if id_truthy fld then the (fm (the (desc_id fld))) else n)"

fun targets :: "(int \<rightharpoonup> nat) \<Rightarrow> nat \<Rightarrow> field_desc list \<Rightarrow> nat list" where
  "targets fm n [] = []"
| "targets fm n (fld # value) =
     target fm n fld # targets fm (if id_truthy fld then n else Suc n) value"

text \<open>The number of descriptors without a truthy id: the number of objects the loop creates.\<close>

definition created :: "field_desc list \<Rightarrow> nat" where
  "created value = length (filter (\<lambda>fld. \<not> id_truthy fld) value)"

subsection \<open>A sample layer and sample payloads\<close>

text \<open>
  Three field objects: two persisted (ids 5 and 7) and one not yet flushed (no id). The
  layer holds them in this order, with the first as its label field.
\<close>

definition sample_store :: "LayerField list" where
  "sample_store =
     [\<lparr>id_col = Some 5, layer_id = Some 1, cls = Some ''layer_field'', idx = Some 0,
       keyname = Some ''name'', datatype_col = Some ''STRING'', display_name = Some ''Name'',
       grid_visibility = Some True\<rparr>,
      \<lparr>id_col = Some 7, layer_id = Some 1, cls = Some ''layer_field'', idx = Some 1,
       keyname = Some ''pop'', datatype_col = Some ''INTEGER'', display_name = Some ''Population'',
       grid_visibility = Some False\<rparr>,
      \<lparr>id_col = None, layer_id = None, cls = Some ''layer_field'', idx = Some 2,
       keyname = Some ''note'', datatype_col = Some ''STRING'', display_name = Some ''Note'',
       grid_visibility = None\<rparr>]"

definition sample_layer :: layer where
  "sample_layer =
     \<lparr>store = sample_store, fields_rel = [0, 1, 2], feature_label_field = Some 0,
      field_class = ''layer_field''\<rparr>"

text \<open>The same store, the layer holding the two persisted fields only.\<close>

definition persisted_layer :: layer where
  "persisted_layer =
     \<lparr>store = sample_store, fields_rel = [0, 1], feature_label_field = Some 0,
      field_class = ''layer_field''\<rparr>"

text \<open>
  A payload: field 7 renamed, then a new field flagged as the label field. Field 5 is
  not mentioned.
\<close>

definition sample_value :: "field_desc list" where
  "sample_value =
     [\<lparr>fd_id = Some (JInt 7), fd_keyname = Some (Some ''people''), fd_datatype = None,
       fd_typemod = None, fd_display_name = None, fd_label_field = None,
       fd_grid_visibility = None\<rparr>,
      \<lparr>fd_id = None, fd_keyname = Some (Some ''area''), fd_datatype = Some (Some ''REAL''),
       fd_typemod = None, fd_display_name = Some (Some ''Area''),
       fd_label_field = Some (Some True), fd_grid_visibility = None\<rparr>]"

text \<open>What the setter returns for the sample layer and the sample payload.\<close>

definition sample_written :: layer where
  "sample_written =
     \<lparr>store =
        [\<lparr>id_col = Some 5, layer_id = Some 1, cls = Some ''layer_field'', idx = Some 0,
          keyname = Some ''name'', datatype_col = Some ''STRING'', display_name = Some ''Name'',
          grid_visibility = Some True\<rparr>,
         \<lparr>id_col = Some 7, layer_id = Some 1, cls = Some ''layer_field'', idx = Some 1,
          keyname = Some ''people'', datatype_col = Some ''INTEGER'',
          display_name = Some ''Population'', grid_visibility = Some False\<rparr>,
         \<lparr>id_col = None, layer_id = None, cls = Some ''layer_field'', idx = Some 0,
          keyname = Some ''note'', datatype_col = Some ''STRING'', display_name = Some ''Note'',
          grid_visibility = None\<rparr>,
         \<lparr>id_col = None, layer_id = None, cls = Some ''layer_field'', idx = Some 2,
          keyname = Some ''area'', datatype_col = Some ''REAL'', display_name = Some ''Area'',
          grid_visibility = None\<rparr>],
      fields_rel = [2, 1, 3], feature_label_field = Some 3, field_class = ''layer_field''\<rparr>"

text \<open>A payload of one descriptor whose id is present and zero, and what the setter returns for it.\<close>

definition zero_id_value :: "field_desc list" where
  "zero_id_value =
     [\<lparr>fd_id = Some (JInt 0), fd_keyname = Some (Some ''area''),
       fd_datatype = Some (Some ''REAL''), fd_typemod = None, fd_display_name = None,
       fd_label_field = None, fd_grid_visibility = None\<rparr>]"

definition zero_id_written :: layer where
  "zero_id_written =
     \<lparr>store =
        [\<lparr>id_col = Some 5, layer_id = Some 1, cls = Some ''layer_field'', idx = Some 0,
          keyname = Some ''name'', datatype_col = Some ''STRING'', display_name = Some ''Name'',
          grid_visibility = Some True\<rparr>,
         \<lparr>id_col = Some 7, layer_id = Some 1, cls = Some ''layer_field'', idx = Some 1,
          keyname = Some ''pop'', datatype_col = Some ''INTEGER'',
          display_name = Some ''Population'', grid_visibility = Some False\<rparr>,
         \<lparr>id_col = None, layer_id = None, cls = Some ''layer_field'', idx = Some 0,
          keyname = Some ''note'', datatype_col = Some ''STRING'', display_name = Some ''Note'',
          grid_visibility = None\<rparr>,
         \<lparr>id_col = None, layer_id = None, cls = Some ''layer_field'', idx = Some 1,
          keyname = Some ''area'', datatype_col = Some ''REAL'', display_name = None,
          grid_visibility = None\<rparr>],
      fields_rel = [2, 3], feature_label_field = None, field_class = ''layer_field''\<rparr>"

text \<open>A payload that submits the two persisted fields in the opposite order.\<close>

definition swap_value :: "field_desc list" where
  "swap_value =
     [\<lparr>fd_id = Some (JInt 7), fd_keyname = None, fd_datatype = None, fd_typemod = None,
       fd_display_name = None, fd_label_field = None, fd_grid_visibility = None\<rparr>,
      \<lparr>fd_id = Some (JInt 5), fd_keyname = None, fd_datatype = None, fd_typemod = None,
       fd_display_name = None, fd_label_field = None, fd_grid_visibility = None\<rparr>]"

definition swap_written :: layer where
  "swap_written =
     \<lparr>store =
        [\<lparr>id_col = Some 5, layer_id = Some 1, cls = Some ''layer_field'', idx = Some 1,
          keyname = Some ''name'', datatype_col = Some ''STRING'', display_name = Some ''Name'',
          grid_visibility = Some True\<rparr>,
         \<lparr>id_col = Some 7, layer_id = Some 1, cls = Some ''layer_field'', idx = Some 0,
          keyname = Some ''pop'', datatype_col = Some ''INTEGER'',
          display_name = Some ''Population'', grid_visibility = Some False\<rparr>,
         \<lparr>id_col = None, layer_id = None, cls = Some ''layer_field'', idx = Some 2,
          keyname = Some ''note'', datatype_col = Some ''STRING'', display_name = Some ''Note'',
          grid_visibility = None\<rparr>],
      fields_rel = [1, 0], feature_label_field = None, field_class = ''layer_field''\<rparr>"






text \<open>A layer with a single field whose id is zero, and what writing back its own payload gives.\<close>

definition zero_layer :: layer where
  "zero_layer =
     \<lparr>store = [\<lparr>id_col = Some 0, layer_id = Some 1, cls = Some ''layer_field'', idx = Some 0,
                keyname = Some ''name'', datatype_col = Some ''STRING'',
                display_name = Some ''Name'', grid_visibility = Some True\<rparr>],
      fields_rel = [0], feature_label_field = None, field_class = ''layer_field''\<rparr>"

definition zero_roundtrip :: layer where
  "zero_roundtrip =
     \<lparr>store = [\<lparr>id_col = Some 0, layer_id = Some 1, cls = Some ''layer_field'', idx = Some 0,
                keyname = Some ''name'', datatype_col = Some ''STRING'',
                display_name = Some ''Name'', grid_visibility = Some True\<rparr>,
               \<lparr>id_col = None, layer_id = None, cls = Some ''layer_field'', idx = Some 1,
                keyname = Some ''name'', datatype_col = Some ''STRING'',
                display_name = Some ''Name'', grid_visibility = Some True\<rparr>],
      fields_rel = [0, 1], feature_label_field = None, field_class = ''layer_field''\<rparr>"

section \<open>Application bootstrap (nextgisweb/pyramidcomp.py)\<close>

subsection \<open>Settings, the configurator and the interpreter's standard output\<close>

type_synonym settings = "string \<rightharpoonup> string"

text \<open>
  The exceptions of \<open>make_app\<close>: \<open>dict(self._settings, **None)\<close> is a type error, the
  \<open>assert\<close> carries its message, \<open>import pip\<close> may fail, and \<open>pip.main\<close> may raise.
\<close>

datatype startup_error = TypeError | AssertionError string | ImportError | PipError

text \<open>The calls \<open>make_app\<close> makes on the configurator, in the order it makes them.\<close>

datatype config_call =
    SetRequestProperty string
  | Include string
  | SetAuthenticationPolicy string
  | SetAuthorizationPolicy
  | AddRoute string string
  | AddStaticView string string nat
  | SetupPyramid string
  | SetupRoutes string
  | Scan

record configurator =
  cfg_settings :: settings
  cfg_calls :: "config_call list"

definition call :: "config_call \<Rightarrow> configurator \<Rightarrow> configurator" where
  "call c config = config\<lparr>cfg_calls := cfg_calls config @ [c]\<rparr>"

text \<open>
  \<open>sys.stdout\<close> names a stream object: one that existed before the call, or the
  \<open>StringIO\<close> buffer \<open>make_app\<close> creates. \<open>written\<close> is the text each stream received.
\<close>

datatype stream = Stream nat | Buf

record interp =
  sys_stdout :: stream
  written :: "stream \<Rightarrow> string"

definition write_stdout :: "string \<Rightarrow> interp \<Rightarrow> interp" where
  "write_stdout text w = w\<lparr>written := (written w)(sys_stdout w := written w (sys_stdout w) @ text)\<rparr>"

text \<open>
  What the environment's pip does: the import fails, or \<open>pip.main(['freeze'])\<close> prints
  its listing to \<open>sys.stdout\<close> and raises or returns.
\<close>

datatype pip = ImportFails | FreezeRaises string | FreezeReturns string

subsection \<open>The component registry\<close>

text \<open>The environment holds the registered components, here by identity, in registration order.\<close>

record env =
  components :: "string list"

text \<open>
  Modelled from the spec: \<open>Env.chain\<close> (nextgisweb/env.py) is not among the sources. The
  spec has the \<open>setup_pyramid\<close> hook invoked on every registered plugin component, in
  registration order.
\<close>

definition chain :: "env \<Rightarrow> string \<Rightarrow> string list" where
  "chain e meth = components e"

text \<open>
  Modelled from the spec: the dict \<open>Env._components\<close> is built in nextgisweb/env.py, which is
  not among the sources. The spec has the \<open>setup_routes\<close> hook invoked on every registered
  plugin component, in registration order.
\<close>

definition itervalues :: "env \<Rightarrow> string list" where
  "itervalues e = components e"

subsection \<open>\<open>make_app\<close>\<close>

text \<open>
  The body of the \<open>try\<close>: \<open>import pip\<close>, a new buffer becomes \<open>sys.stdout\<close>, the
  freeze listing is printed, and the key is the slash followed by the digest of the
  buffer's text. \<open>md5\<close> is \<open>hashlib.md5(...).hexdigest()\<close>.
\<close>

definition try_freeze ::
  "(string \<Rightarrow> string) \<Rightarrow> pip \<Rightarrow> interp \<Rightarrow> (startup_error + string) \<times> interp" where
  "try_freeze md5 p w =
     (case p of
        ImportFails \<Rightarrow> (Inl ImportError, w)
      | FreezeRaises out \<Rightarrow>
          (Inl PipError,
           write_stdout out (w\<lparr>sys_stdout := Buf, written := (written w)(Buf := [])\<rparr>))
      | FreezeReturns out \<Rightarrow>
          (let w1 = write_stdout out (w\<lparr>sys_stdout := Buf, written := (written w)(Buf := [])\<rparr>)
           in (Inr (''/'' @ md5 (written w1 Buf)), w1)))"

text \<open>The \<open>finally\<close> clause: \<open>sys.stdout = stdout\<close>.\<close>

definition finally_restore :: "stream \<Rightarrow> interp \<Rightarrow> interp" where
  "finally_restore stdout w = w\<lparr>sys_stdout := stdout\<rparr>"

text \<open>
  The result of a run: the exception raised, if any; the configurator as far as it was
  built (none when the merge of the settings already failed); the interpreter state.
\<close>

record run =
  raised :: "startup_error option"
  config :: "configurator option"
  state :: interp

definition make_app ::
  "(string \<Rightarrow> string) \<Rightarrow> pip \<Rightarrow> settings \<Rightarrow> env \<Rightarrow> settings option \<Rightarrow> interp \<Rightarrow> run" where
  "make_app md5 p self_settings self_env settings_arg w =
     (case settings_arg of
        None \<Rightarrow> \<lparr>raised = Some TypeError, config = None, state = w\<rparr>
      | Some given \<Rightarrow>
          (let settings = (self_settings ++ given)(''mako.directories'' \<mapsto> ''nextgisweb:templates/'');
               config0 = \<lparr>cfg_settings = settings, cfg_calls = []\<rparr>;
               config1 = call (SetRequestProperty ''env'') config0;
               config2 = call (Include ''pyramid_tm'') config1
           in if ''secret'' \<notin> dom settings
              then \<lparr>raised = Some (AssertionError ''Secret not set!''), config = Some config2,
                    state = w\<rparr>
              else
                (let config3 = call (SetAuthenticationPolicy (the (settings ''secret''))) config2;
                     config4 = call SetAuthorizationPolicy config3;
                     config5 = call (AddRoute ''home'' ''/'') config4;
                     stdout = sys_stdout w;
                     (r, w1) = try_freeze md5 p w;
                     w2 = finally_restore stdout w1
                 in case r of
                      Inl e \<Rightarrow> \<lparr>raised = Some e, config = Some config5, state = w2\<rparr>
                    | Inr static_key \<Rightarrow>
                        (let config6 = call (AddStaticView (''static'' @ static_key @ ''/asset'')
                                               ''static'' 3600) config5;
                             config7 = call (AddRoute ''amd_package''
                                               (''static'' @ static_key @ ''/amd/*subpath'')) config6;
                             config8 = foldl (\<lambda>c comp. call (SetupPyramid comp) c) config7
                                         (chain self_env ''setup_pyramid'');
                             config9 = foldl (\<lambda>c comp. call (SetupRoutes comp) c) config8
                                         (itervalues self_env)
                         in \<lparr>raised = None, config = Some (call Scan config9), state = w2\<rparr>))))"

text \<open>The hook invocations among the configurator's calls.\<close>

fun is_hook :: "config_call \<Rightarrow> bool" where
  "is_hook (SetupPyramid c) = True"
| "is_hook (SetupRoutes c) = True"
| "is_hook _ = False"

section \<open>Properties of the field serializer\<close>

subsection \<open>Stores that differ in \<open>idx\<close> only\<close>

lemma same_cols_refl: "same_cols st st"
  by (simp add: same_cols_def)

lemma same_cols_trans: "same_cols a b \<Longrightarrow> same_cols b c \<Longrightarrow> same_cols a c"
  by (simp add: same_cols_def)

lemma same_cols_length: "same_cols st st' \<Longrightarrow> length st' = length st"
  by (simp add: same_cols_def)

lemma same_cols_nth: "same_cols st st' \<Longrightarrow> (st' ! r)\<lparr>idx := x\<rparr> = (st ! r)\<lparr>idx := x\<rparr>"
proof -
  assume "same_cols st st'"
  then have "(st' ! r)\<lparr>idx := None\<rparr> = (st ! r)\<lparr>idx := None\<rparr>"
    by (simp add: same_cols_def)
  then have "((st' ! r)\<lparr>idx := None\<rparr>)\<lparr>idx := x\<rparr> = ((st ! r)\<lparr>idx := None\<rparr>)\<lparr>idx := x\<rparr>"
    by simp
  then show ?thesis by simp
qed

lemma same_cols_id: "same_cols st st' \<Longrightarrow> id_col (st' ! r) = id_col (st ! r)"
proof -
  assume "same_cols st st'"
  then have "id_col ((st' ! r)\<lparr>idx := None\<rparr>) = id_col ((st ! r)\<lparr>idx := None\<rparr>)"
    by (simp add: same_cols_nth)
  then show ?thesis by simp
qed

lemma has_id_same_cols: "same_cols st st' \<Longrightarrow> has_id st' k r = has_id st k r"
  by (simp add: has_id_def same_cols_id)

subsection \<open>The ordering list\<close>

lemma length_order_entity: "length (order_entity i e b st) = length st"
  by (simp add: order_entity_def Let_def)

lemma order_entity_other: "r \<noteq> e \<Longrightarrow> order_entity i e b st ! r = st ! r"
  by (simp add: order_entity_def Let_def)

lemma same_cols_order_entity: "same_cols st (order_entity i e b st)"
proof -
  have "(order_entity i e b st ! r)\<lparr>idx := None\<rparr> = (st ! r)\<lparr>idx := None\<rparr>" for r
  proof (cases "r = e \<and> e < length st")
    case True
    then show ?thesis by (simp add: order_entity_def Let_def)
  next
    case False
    then have "r \<noteq> e \<or> length st \<le> e" by auto
    then show ?thesis
      by (auto simp: order_entity_def Let_def list_update_beyond)
  qed
  then show ?thesis by (simp add: same_cols_def length_order_entity)
qed

lemma order_entity_idx:
  "e < length st \<Longrightarrow> idx (order_entity i e True st ! e) = Some (int i)"
  by (simp add: order_entity_def Let_def)

lemma length_reorder_from: "length (reorder_from i es st) = length st"
  by (induction es arbitrary: i st) (simp_all add: length_order_entity)

lemma same_cols_reorder_from: "same_cols st (reorder_from i es st)"
proof (induction es arbitrary: i st)
  case Nil
  show ?case by (simp add: same_cols_refl)
next
  case (Cons e es)
  show ?case
    using same_cols_trans [OF same_cols_order_entity Cons.IH] by simp
qed

lemma reorder_from_other: "r \<notin> set es \<Longrightarrow> reorder_from i es st ! r = st ! r"
  by (induction es arbitrary: i st) (simp_all add: order_entity_other)

lemma reorder_from_idx:
  "distinct es \<Longrightarrow> \<forall>e\<in>set es. e < length st \<Longrightarrow> p < length es \<Longrightarrow>
     idx (reorder_from i es st ! (es ! p)) = Some (int (i + p))"
proof (induction es arbitrary: i st p)
  case Nil
  then show ?case by simp
next
  case (Cons e es)
  show ?case
  proof (cases p)
    case 0
    have "reorder_from (Suc i) es (order_entity i e True st) ! e = order_entity i e True st ! e"
      using Cons.prems(1) by (simp add: reorder_from_other)
    then show ?thesis using 0 Cons.prems(2) by (simp add: order_entity_idx)
  next
    case (Suc q)
    have "idx (reorder_from (Suc i) es (order_entity i e True st) ! (es ! q))
            = Some (int (Suc i + q))"
      using Cons.prems Suc by (intro Cons.IH) (simp_all add: length_order_entity)
    then show ?thesis using Suc by simp
  qed
qed

subsection \<open>The first loop\<close>

lemma find_append_case:
  "List.find P (xs @ ys) = (case List.find P xs of None \<Rightarrow> List.find P ys | Some x \<Rightarrow> Some x)"
  by (induction xs) simp_all

text \<open>
  Run on the first part \<open>xs\<close> of the collection, the loop never fails; it removes the
  fields of \<open>xs\<close> with a truthy id, enters the first field of each id in the dict, and
  changes no column but \<open>idx\<close>, and that only on fields of the collection.
\<close>

lemma pop_existing_spec:
  "fields_rel obj = xs @ K \<Longrightarrow>
   \<exists>fm' obj'. pop_existing (rev (enumerate 0 xs)) fm obj = Inr (fm', obj') \<and>
      fields_rel obj' = filter (\<lambda>r. \<not> truthy (id_col (store obj ! r))) xs @ K \<and>
      same_cols (store obj) (store obj') \<and>
      (\<forall>r. r \<notin> set (xs @ K) \<longrightarrow> store obj' ! r = store obj ! r) \<and>
      feature_label_field obj' = feature_label_field obj \<and>
      field_class obj' = field_class obj \<and>
      (\<forall>k. fm' k = (case List.find (has_id (store obj) k) xs of None \<Rightarrow> fm k | Some r \<Rightarrow> Some r))"
proof (induction xs arbitrary: fm obj K rule: rev_induct)
  case Nil
  then show ?case by (simp add: same_cols_refl)
next
  case (snoc x xs)
  have en: "rev (enumerate 0 (xs @ [x])) = (length xs, x) # rev (enumerate 0 xs)"
    by (simp add: enumerate_append_eq)
  show ?case
  proof (cases "truthy (id_col (store obj ! x))")
    case False
    have f: "fields_rel obj = xs @ (x # K)" using snoc.prems by simp
    have nh: "\<not> has_id (store obj) k x" for k
      using False by (auto simp: has_id_def truthy_def)
    from snoc.IH [OF f, of fm] obtain fm' obj' where
      r: "pop_existing (rev (enumerate 0 xs)) fm obj = Inr (fm', obj')"
         "fields_rel obj' = filter (\<lambda>r. \<not> truthy (id_col (store obj ! r))) xs @ x # K"
         "same_cols (store obj) (store obj')"
         "\<forall>r. r \<notin> set (xs @ x # K) \<longrightarrow> store obj' ! r = store obj ! r"
         "feature_label_field obj' = feature_label_field obj"
         "field_class obj' = field_class obj"
         "\<forall>k. fm' k = (case List.find (has_id (store obj) k) xs of None \<Rightarrow> fm k | Some r \<Rightarrow> Some r)"
      by blast
    show ?thesis
      using r False nh by (simp add: en find_append_case split: option.splits)
  next
    case True
    then obtain k where k: "id_col (store obj ! x) = Some k" "k \<noteq> 0"
      by (auto simp: truthy_def split: option.splits)
    define obj1 where "obj1 = reorder (obj\<lparr>fields_rel := xs @ K\<rparr>)"
    have p: "pop_ol (length xs) obj = Inr obj1"
      using snoc.prems by (simp add: pop_ol_def obj1_def)
    have f1: "fields_rel obj1 = xs @ K" by (simp add: obj1_def reorder_def)
    have sc: "same_cols (store obj) (store obj1)"
      by (simp add: obj1_def reorder_def same_cols_reorder_from)
    have fr: "r \<notin> set (xs @ K) \<Longrightarrow> store obj1 ! r = store obj ! r" for r
      by (simp add: obj1_def reorder_def reorder_from_other)
    from snoc.IH [OF f1, of "fm(k \<mapsto> x)"] obtain fm' obj' where
      r: "pop_existing (rev (enumerate 0 xs)) (fm(k \<mapsto> x)) obj1 = Inr (fm', obj')"
         "fields_rel obj' = filter (\<lambda>r. \<not> truthy (id_col (store obj1 ! r))) xs @ K"
         "same_cols (store obj1) (store obj')"
         "\<forall>r. r \<notin> set (xs @ K) \<longrightarrow> store obj' ! r = store obj1 ! r"
         "feature_label_field obj' = feature_label_field obj1"
         "field_class obj' = field_class obj1"
         "\<forall>j. fm' j = (case List.find (has_id (store obj1) j) xs of
                          None \<Rightarrow> (fm(k \<mapsto> x)) j | Some r \<Rightarrow> Some r)"
      by blast
    have h: "has_id (store obj1) j = has_id (store obj) j" for j
      using has_id_same_cols [OF sc] by (intro ext) simp
    have hx: "has_id (store obj) j x = (j = k)" for j
      using k by (auto simp: has_id_def)
    have 1: "pop_existing (rev (enumerate 0 (xs @ [x]))) fm obj = Inr (fm', obj')"
      using True k p r(1) by (simp add: en)
    have 2: "fields_rel obj' = filter (\<lambda>r. \<not> truthy (id_col (store obj ! r))) (xs @ [x]) @ K"
      using r(2) True by (simp add: same_cols_id [OF sc])
    have 3: "same_cols (store obj) (store obj')"
      using same_cols_trans [OF sc r(3)] .
    have 4: "feature_label_field obj' = feature_label_field obj"
      "field_class obj' = field_class obj"
      using r(5,6) by (simp_all add: obj1_def reorder_def)
    have 5: "fm' j = (case List.find (has_id (store obj) j) (xs @ [x]) of
                        None \<Rightarrow> fm j | Some r \<Rightarrow> Some r)" for j
      using r(7) by (simp add: h hx find_append_case split: option.splits)
    have 6: "\<forall>r. r \<notin> set ((xs @ [x]) @ K) \<longrightarrow> store obj' ! r = store obj ! r"
      using r(4) fr by simp
    show ?thesis using 1 2 3 4 5 6 by blast
  qed
qed

text \<open>The setter, with the first loop replaced by what it computes.\<close>

lemma setter_unfold:
  "\<exists>obj1. fields_rel obj1 = kept obj \<and> same_cols (store obj) (store obj1) \<and>
      (\<forall>r. r \<notin> set (fields_rel obj) \<longrightarrow> store obj1 ! r = store obj ! r) \<and>
      feature_label_field obj1 = None \<and> field_class obj1 = field_class obj \<and>
      setter obj value =
        (case assign_fields (fldmap_of obj) value obj1 of
           Inl e \<Rightarrow> Inl e | Inr obj2 \<Rightarrow> Inr (reorder obj2))"
proof -
  have "fields_rel obj = fields_rel obj @ []" by simp
  from pop_existing_spec [OF this, of Map.empty] obtain fm' obj' where
    r: "pop_existing (rev (enumerate 0 (fields_rel obj))) Map.empty obj = Inr (fm', obj')"
       "fields_rel obj' = filter (\<lambda>r. \<not> truthy (id_col (store obj ! r))) (fields_rel obj) @ []"
       "same_cols (store obj) (store obj')"
       "\<forall>r. r \<notin> set (fields_rel obj @ []) \<longrightarrow> store obj' ! r = store obj ! r"
       "feature_label_field obj' = feature_label_field obj"
       "field_class obj' = field_class obj"
       "\<forall>k. fm' k = (case List.find (has_id (store obj) k) (fields_rel obj) of
                        None \<Rightarrow> Map.empty k | Some r \<Rightarrow> Some r)"
    by blast
  have fm: "fm' = fldmap_of obj"
    using r(7) by (intro ext) (simp add: fldmap_of_def split: option.splits)
  let ?o1 = "obj'\<lparr>feature_label_field := None\<rparr>"
  have "fields_rel ?o1 = kept obj" using r(2) by (simp add: kept_def)
  moreover have "same_cols (store obj) (store ?o1)" using r(3) by simp
  moreover have "\<forall>r. r \<notin> set (fields_rel obj) \<longrightarrow> store ?o1 ! r = store obj ! r"
    using r(4) by simp
  moreover have "field_class ?o1 = field_class obj" using r(6) by simp
  moreover have "setter obj value =
        (case assign_fields (fldmap_of obj) value ?o1 of
           Inl e \<Rightarrow> Inl e | Inr obj2 \<Rightarrow> Inr (reorder obj2))"
    using r(1) fm by (simp add: setter_def)
  ultimately show ?thesis by (intro exI [of _ ?o1]) simp
qed

subsection \<open>The second loop\<close>

lemma truthy_Some: "truthy v \<Longrightarrow> \<exists>k. v = Some k \<and> k \<noteq> 0"
  by (cases v) (simp_all add: truthy_def)

lemma truthy_desc_id: "truthy (desc_id d) \<Longrightarrow> id_truthy d"
  by (cases "get_id d") (simp_all add: desc_id_def id_truthy_def truthy_def split: if_splits)

lemma id_truthy_iff: "id_truthy d \<longleftrightarrow> truthy (desc_id d) \<or> non_integer_id d"
  by (cases "get_id d") (auto simp: desc_id_def id_truthy_def non_integer_id_def truthy_def)

lemma non_integer_not_truthy: "non_integer_id d \<Longrightarrow> \<not> truthy (desc_id d)"
  by (simp add: non_integer_id_def truthy_def)

text \<open>Finding \<open>mfld\<close>, by the kind of id submitted.\<close>

lemma find_mfld_non_integer:
  "non_integer_id d \<Longrightarrow> find_mfld fm d obj = Inl error.TypeError"
  by (cases "get_id d")
     (auto simp: find_mfld_def Let_def non_integer_id_def id_truthy_def desc_id_def
        fldmap_get_def format_d_def)

lemma find_mfld_truthy:
  "truthy (desc_id d) \<Longrightarrow>
     find_mfld fm d obj =
       (case fm (the (desc_id d)) of
          None \<Rightarrow> Inl (ValidationError (the (desc_id d)))
        | Some mfld \<Rightarrow> Inr (mfld, obj))"
  by (cases "get_id d")
     (auto simp: find_mfld_def Let_def desc_id_def truthy_def fldmap_get_def format_d_def
        split: option.splits if_splits)

lemma find_mfld_falsy:
  "\<not> id_truthy d \<Longrightarrow>
     find_mfld fm d obj =
       (case fd_datatype d of
          None \<Rightarrow> Inl (KeyError ''datatype'')
        | Some dt \<Rightarrow>
            Inr (length (store obj), obj\<lparr>store := store obj @ [new_field (field_class obj) dt]\<rparr>))"
  by (simp add: find_mfld_def Let_def id_truthy_def)

lemma find_mfld_Inr:
  assumes "find_mfld fm d obj = Inr (m, obj1)"
  shows "\<not> non_integer_id d \<and> (id_truthy d \<longleftrightarrow> truthy (desc_id d)) \<and> m = target fm (length (store obj)) d \<and>
     (if id_truthy d then fm (the (desc_id d)) = Some m \<and> obj1 = obj
      else \<exists>dt. fd_datatype d = Some dt \<and>
             obj1 = obj\<lparr>store := store obj @ [new_field (field_class obj) dt]\<rparr>)"
proof (cases "non_integer_id d")
  case True
  then show ?thesis using assms by (simp add: find_mfld_non_integer)
next
  case False
  show ?thesis
  proof (cases "truthy (desc_id d)")
    case True
    then have t: "id_truthy d" by (rule truthy_desc_id)
    show ?thesis
      using assms True t False
      by (auto simp: find_mfld_truthy target_def split: option.splits)
  next
    case f: False
    then have n: "\<not> id_truthy d" using False by (simp add: id_truthy_iff)
    show ?thesis
      using assms f n False
      by (auto simp: find_mfld_falsy target_def split: option.splits)
  qed
qed


lemma assign_attrs_fixed:
  "id_col (assign_attrs d f) = id_col f" "layer_id (assign_attrs d f) = layer_id f"
  "cls (assign_attrs d f) = cls f" "idx (assign_attrs d f) = idx f"
  "datatype_col (assign_attrs d f) = datatype_col f"
  by (simp_all add: assign_attrs_def Let_def split: option.splits)

lemma assign_attrs_set:
  "keyname (assign_attrs d f) = (case fd_keyname d of None \<Rightarrow> keyname f | Some v \<Rightarrow> v)"
  "display_name (assign_attrs d f) = (case fd_display_name d of None \<Rightarrow> display_name f | Some v \<Rightarrow> v)"
  "grid_visibility (assign_attrs d f) =
     (case fd_grid_visibility d of None \<Rightarrow> grid_visibility f | Some v \<Rightarrow> v)"
  by (simp_all add: assign_attrs_def Let_def split: option.splits)

lemma order_entity_nth_cols: "(order_entity i e b st ! r)\<lparr>idx := x\<rparr> = (st ! r)\<lparr>idx := x\<rparr>"
  using same_cols_nth [OF same_cols_order_entity] .

text \<open>
  One iteration that returns: the object found, with the attributes assigned and the
  label set, was not in the collection and is appended to it.
\<close>

lemma assign_one_Inr:
  assumes "assign_one fm d obj = Inr obj1"
  shows "\<exists>m ob. find_mfld fm d obj = Inr (m, ob) \<and> m \<notin> set (fields_rel obj) \<and>
     fields_rel ob = fields_rel obj \<and> feature_label_field ob = feature_label_field obj \<and>
     field_class ob = field_class obj \<and>
     fields_rel obj1 = fields_rel obj @ [m] \<and>
     feature_label_field obj1 = (if label_flag d then Some m else feature_label_field obj) \<and>
     field_class obj1 = field_class obj \<and>
     store obj1 = order_entity (length (fields_rel obj)) m False
                    ((store ob)[m := assign_attrs d (store ob ! m)])"
proof -
  from assms obtain m ob where f: "find_mfld fm d obj = Inr (m, ob)"
    by (auto simp: assign_one_def split: sum.splits)
  from find_mfld_Inr [OF f] have ob: "fields_rel ob = fields_rel obj"
    "feature_label_field ob = feature_label_field obj" "field_class ob = field_class obj"
    by (auto split: if_splits)
  let ?ob2 = "ob\<lparr>store := (store ob)[m := assign_attrs d (store ob ! m)]\<rparr>"
  let ?ob3 = "if label_flag d then ?ob2\<lparr>feature_label_field := Some m\<rparr> else ?ob2"
  have a: "append_ol m ?ob3 = Inr obj1"
    using assms f by (simp add: assign_one_def Let_def)
  then have n: "m \<notin> set (fields_rel obj)"
    using ob(1) by (auto simp: append_ol_def split: if_splits)
  have e: "obj1 = ?ob3\<lparr>fields_rel := fields_rel ?ob3 @ [m],
             store := order_entity (length (fields_rel ?ob3 @ [m]) - 1) m False (store ?ob3)\<rparr>"
    using a by (auto simp: append_ol_def split: if_splits)
  have "fields_rel obj1 = fields_rel obj @ [m]" by (simp add: e ob)
  moreover have "feature_label_field obj1 =
      (if label_flag d then Some m else feature_label_field obj)" by (simp add: e ob)
  moreover have "field_class obj1 = field_class obj" by (simp add: e ob)
  moreover have "store obj1 = order_entity (length (fields_rel obj)) m False
                    ((store ob)[m := assign_attrs d (store ob ! m)])" by (simp add: e ob)
  ultimately show ?thesis using f n ob by blast
qed

lemma assign_one_kind:
  "assign_one fm d obj = Inr obj1 \<Longrightarrow> id_truthy d \<longleftrightarrow> truthy (desc_id d)"
  using assign_one_Inr find_mfld_Inr by blast

lemma assign_one_fields:
  "assign_one fm d obj = Inr obj1 \<Longrightarrow>
     fields_rel obj1 = fields_rel obj @ [target fm (length (store obj)) d]"
  using assign_one_Inr find_mfld_Inr by metis

lemma assign_one_fresh:
  "assign_one fm d obj = Inr obj1 \<Longrightarrow> target fm (length (store obj)) d \<notin> set (fields_rel obj)"
  using assign_one_Inr find_mfld_Inr by metis


lemma assign_one_class:
  "assign_one fm d obj = Inr obj1 \<Longrightarrow> field_class obj1 = field_class obj"
  using assign_one_Inr by blast

lemma assign_one_store:
  assumes "assign_one fm d obj = Inr obj1"
  shows "store obj1 = order_entity (length (fields_rel obj)) (target fm (length (store obj)) d) False
      ((if id_truthy d then store obj
        else store obj @ [new_field (field_class obj) (the (fd_datatype d))])
       [target fm (length (store obj)) d :=
          assign_attrs d ((if id_truthy d then store obj
             else store obj @ [new_field (field_class obj) (the (fd_datatype d))])
               ! target fm (length (store obj)) d)])"
proof -
  from assign_one_Inr [OF assms] obtain m ob where
    f: "find_mfld fm d obj = Inr (m, ob)"
    and s: "store obj1 = order_entity (length (fields_rel obj)) m False
                    ((store ob)[m := assign_attrs d (store ob ! m)])"
    by blast
  from find_mfld_Inr [OF f] have m: "m = target fm (length (store obj)) d"
    and ob: "store ob = (if id_truthy d then store obj
        else store obj @ [new_field (field_class obj) (the (fd_datatype d))])"
    by (auto split: if_splits)
  show ?thesis using s m ob by simp
qed

lemma assign_one_length:
  "assign_one fm d obj = Inr obj1 \<Longrightarrow>
     length (store obj1) = (if id_truthy d then length (store obj) else Suc (length (store obj)))"
  by (simp add: assign_one_store length_order_entity)

lemma assign_one_hit:
  assumes "assign_one fm d obj = Inr obj1" "id_truthy d"
  shows "fm (the (desc_id d)) = Some (target fm n d)"
proof -
  from assign_one_Inr [OF assms(1)] obtain m ob where "find_mfld fm d obj = Inr (m, ob)" by blast
  from find_mfld_Inr [OF this] assms(2) have "fm (the (desc_id d)) = Some m" by simp
  then show ?thesis using assms(2) by (simp add: target_def)
qed

lemma assign_one_datatype:
  assumes "assign_one fm d obj = Inr obj1" "\<not> id_truthy d"
  shows "\<exists>dt. fd_datatype d = Some dt"
proof -
  from assign_one_Inr [OF assms(1)] obtain m ob where "find_mfld fm d obj = Inr (m, ob)" by blast
  from find_mfld_Inr [OF this] assms(2) show ?thesis by auto
qed

lemma assign_one_other:
  assumes "assign_one fm d obj = Inr obj1" "r < length (store obj)"
    "r \<noteq> target fm (length (store obj)) d"
  shows "store obj1 ! r = store obj ! r"
  using assms(2,3)
  by (simp add: assign_one_store [OF assms(1)] order_entity_other nth_append)


lemma assign_one_new:
  assumes "assign_one fm d obj = Inr obj1" "\<not> id_truthy d"
  shows "(store obj1 ! length (store obj))\<lparr>idx := x\<rparr> =
       (assign_attrs d (new_field (field_class obj) (the (fd_datatype d))))\<lparr>idx := x\<rparr>"
  using assms(2)
  by (simp add: assign_one_store [OF assms(1)] order_entity_nth_cols target_def)

text \<open>The whole loop.\<close>

lemma assign_fields_append:
  "assign_fields fm (xs @ ys) obj =
     (case assign_fields fm xs obj of Inl e \<Rightarrow> Inl e | Inr obj1 \<Rightarrow> assign_fields fm ys obj1)"
  by (induction xs arbitrary: obj) (simp_all split: sum.splits)

lemma targets_append:
  "targets fm n (xs @ ys) = targets fm n xs @ targets fm (n + created xs) ys"
  by (induction xs arbitrary: n) (simp_all add: created_def)

lemma length_targets: "length (targets fm n ds) = length ds"
  by (induction ds arbitrary: n) simp_all

lemma assign_fields_shape:
  "assign_fields fm ds obj = Inr obj' \<Longrightarrow>
     fields_rel obj' = fields_rel obj @ targets fm (length (store obj)) ds \<and>
     length (store obj') = length (store obj) + created ds \<and>
     field_class obj' = field_class obj"
proof (induction ds arbitrary: obj)
  case Nil
  then show ?case by (simp add: created_def)
next
  case (Cons d ds)
  from Cons.prems obtain obj1 where
    1: "assign_one fm d obj = Inr obj1" and 2: "assign_fields fm ds obj1 = Inr obj'"
    by (auto split: sum.splits)
  show ?case
    using Cons.IH [OF 2] assign_one_fields [OF 1] assign_one_length [OF 1] assign_one_class [OF 1]
    by (simp add: created_def)
qed

lemma assign_fields_distinct:
  "assign_fields fm ds obj = Inr obj' \<Longrightarrow> distinct (fields_rel obj) \<Longrightarrow>
     distinct (fields_rel obj')"
proof (induction ds arbitrary: obj)
  case Nil
  then show ?case by simp
next
  case (Cons d ds)
  from Cons.prems(1) obtain obj1 where
    1: "assign_one fm d obj = Inr obj1" and 2: "assign_fields fm ds obj1 = Inr obj'"
    by (auto split: sum.splits)
  have "distinct (fields_rel obj1)"
    using assign_one_fields [OF 1] assign_one_fresh [OF 1] Cons.prems(2) by simp
  then show ?case by (rule Cons.IH [OF 2])
qed

lemma assign_fields_kind:
  "assign_fields fm ds obj = Inr obj' \<Longrightarrow> d \<in> set ds \<Longrightarrow> id_truthy d \<longleftrightarrow> truthy (desc_id d)"
proof (induction ds arbitrary: obj)
  case Nil
  then show ?case by simp
next
  case (Cons a ds)
  from Cons.prems(1) obtain obj1 where
    1: "assign_one fm a obj = Inr obj1" and 2: "assign_fields fm ds obj1 = Inr obj'"
    by (auto split: sum.splits)
  show ?case
  proof (cases "d = a")
    case True
    then show ?thesis using assign_one_kind [OF 1] by simp
  next
    case False
    then show ?thesis using Cons.IH [OF 2] Cons.prems(2) by simp
  qed
qed

lemma assign_fields_other:
  "assign_fields fm ds obj = Inr obj' \<Longrightarrow> r < length (store obj) \<Longrightarrow>
     r \<notin> set (targets fm (length (store obj)) ds) \<Longrightarrow> store obj' ! r = store obj ! r"
proof (induction ds arbitrary: obj)
  case Nil
  then show ?case by simp
next
  case (Cons d ds)
  from Cons.prems(1) obtain obj1 where
    1: "assign_one fm d obj = Inr obj1" and 2: "assign_fields fm ds obj1 = Inr obj'"
    by (auto split: sum.splits)
  have len: "length (store obj1) = (if id_truthy d then length (store obj) else Suc (length (store obj)))"
    by (rule assign_one_length [OF 1])
  have "store obj' ! r = store obj1 ! r"
    using Cons.prems(2,3) len by (intro Cons.IH [OF 2]) (simp_all split: if_splits)
  also have "\<dots> = store obj ! r"
    using Cons.prems(2,3) by (intro assign_one_other [OF 1]) simp_all
  finally show ?case .
qed


lemma assign_fields_hits:
  "assign_fields fm ds obj = Inr obj' \<Longrightarrow> d \<in> set ds \<Longrightarrow> truthy (desc_id d) \<Longrightarrow>
     fm (the (desc_id d)) = Some (target fm n d)"
proof (induction ds arbitrary: obj)
  case Nil
  then show ?case by simp
next
  case (Cons a ds)
  from Cons.prems(1) obtain obj1 where
    1: "assign_one fm a obj = Inr obj1" and 2: "assign_fields fm ds obj1 = Inr obj'"
    by (auto split: sum.splits)
  show ?case
  proof (cases "d = a")
    case True
    then show ?thesis using assign_one_hit [OF 1] truthy_desc_id [OF Cons.prems(3)] by simp
  next
    case False
    then show ?thesis using Cons.IH [OF 2] Cons.prems(2,3) by simp
  qed
qed

lemma assign_fields_datatype:
  "assign_fields fm ds obj = Inr obj' \<Longrightarrow> d \<in> set ds \<Longrightarrow> \<not> truthy (desc_id d) \<Longrightarrow>
     \<exists>dt. fd_datatype d = Some dt"
proof (induction ds arbitrary: obj)
  case Nil
  then show ?case by simp
next
  case (Cons a ds)
  from Cons.prems(1) obtain obj1 where
    1: "assign_one fm a obj = Inr obj1" and 2: "assign_fields fm ds obj1 = Inr obj'"
    by (auto split: sum.splits)
  show ?case
  proof (cases "d = a")
    case True
    then show ?thesis using assign_one_datatype [OF 1] assign_one_kind [OF 1] Cons.prems(3) by simp
  next
    case False
    then show ?thesis using Cons.IH [OF 2] Cons.prems(2,3) by simp
  qed
qed

lemma assign_fields_split:
  assumes "assign_fields fm ds obj = Inr obj'" "i < length ds"
  shows "\<exists>o1 o2. assign_fields fm (take i ds) obj = Inr o1 \<and>
           assign_one fm (ds ! i) o1 = Inr o2 \<and>
           assign_fields fm (drop (Suc i) ds) o2 = Inr obj'"
proof -
  have "ds = take i ds @ (ds ! i # drop (Suc i) ds)"
    using assms(2) by (simp add: id_take_nth_drop [symmetric])
  then have "assign_fields fm (take i ds @ (ds ! i # drop (Suc i) ds)) obj = Inr obj'"
    using assms(1) by simp
  then show ?thesis
    by (auto simp: assign_fields_append split: sum.splits)
qed

lemma targets_nth:
  "i < length ds \<Longrightarrow> targets fm n ds ! i = target fm (n + created (take i ds)) (ds ! i)"
proof (induction ds arbitrary: n i)
  case Nil
  then show ?case by simp
next
  case (Cons d ds)
  show ?case
  proof (cases i)
    case 0
    then show ?thesis by (simp add: created_def)
  next
    case (Suc j)
    then show ?thesis using Cons.prems Cons.IH [of j] by (simp add: created_def)
  qed
qed

lemma targets_mem:
  "t \<in> set (targets fm n ds) \<Longrightarrow>
     (\<exists>d\<in>set ds. id_truthy d \<and> t = the (fm (the (desc_id d)))) \<or>
     (n \<le> t \<and> t < n + created ds)"
proof (induction ds arbitrary: n)
  case Nil
  then show ?case by simp
next
  case (Cons d ds)
  show ?case
  proof (cases "t = target fm n d")
    case True
    then show ?thesis by (auto simp: target_def created_def)
  next
    case False
    then have "t \<in> set (targets fm (if id_truthy d then n else Suc n) ds)"
      using Cons.prems by simp
    from Cons.IH [OF this] show ?thesis
      by (auto simp: created_def split: if_splits)
  qed
qed

lemma created_take_le: "created (take i ds) \<le> created ds"
proof -
  have "created ds = created (take i ds @ drop i ds)" by simp
  also have "\<dots> = created (take i ds) + created (drop i ds)"
    unfolding created_def by (simp only: filter_append length_append)
  finally show ?thesis by simp
qed

lemma created_take_Suc:
  "i < length ds \<Longrightarrow>
     created (take (Suc i) ds) = created (take i ds) + (if id_truthy (ds ! i) then 0 else 1)"
  by (simp add: created_def take_Suc_conv_app_nth)

lemma created_take_less:
  "i < length ds \<Longrightarrow> \<not> id_truthy (ds ! i) \<Longrightarrow> created (take i ds) < created ds"
  using created_take_le [of "Suc i" ds] created_take_Suc [of i ds] by simp

text \<open>What the dict of the first loop holds.\<close>

lemma fldmap_of_Some:
  "fldmap_of obj k = Some r \<Longrightarrow>
     r \<in> set (fields_rel obj) \<and> k \<noteq> 0 \<and> id_col (store obj ! r) = Some k"
  by (auto simp: fldmap_of_def find_Some_iff has_id_def)

lemma fldmap_of_hit:
  assumes "truthy v" "fldmap_of obj (the v) = Some r"
  shows "r \<in> set (fields_rel obj) \<and> id_col (store obj ! r) = v \<and> truthy (id_col (store obj ! r))"
proof -
  from truthy_Some [OF assms(1)] obtain k where k: "v = Some k" "k \<noteq> 0" by blast
  show ?thesis using fldmap_of_Some [of obj k r] assms(2) k by (simp add: truthy_def)
qed



subsection \<open>The write as a whole\<close>

lemma setter_result:
  assumes "setter obj value = Inr obj'"
  shows "\<exists>o1 o2. fields_rel o1 = kept obj \<and> same_cols (store obj) (store o1) \<and>
      (\<forall>r. r \<notin> set (fields_rel obj) \<longrightarrow> store o1 ! r = store obj ! r) \<and>
      feature_label_field o1 = None \<and> field_class o1 = field_class obj \<and>
      assign_fields (fldmap_of obj) value o1 = Inr o2 \<and> obj' = reorder o2"
proof -
  from setter_unfold [of obj "value"] obtain o1 where
    o1: "fields_rel o1 = kept obj" "same_cols (store obj) (store o1)"
      "\<forall>r. r \<notin> set (fields_rel obj) \<longrightarrow> store o1 ! r = store obj ! r"
      "feature_label_field o1 = None" "field_class o1 = field_class obj"
    and s: "setter obj value =
        (case assign_fields (fldmap_of obj) value o1 of
           Inl e \<Rightarrow> Inl e | Inr obj2 \<Rightarrow> Inr (reorder obj2))"
    by blast
  from s assms obtain o2 where
    "assign_fields (fldmap_of obj) value o1 = Inr o2" "obj' = reorder o2"
    by (auto split: sum.splits)
  with o1 show ?thesis by blast
qed

lemma setter_fields:
  assumes "setter obj value = Inr obj'"
  shows "fields_rel obj' = kept obj @ targets (fldmap_of obj) (length (store obj)) value"
    and "length (store obj') = length (store obj) + created value"
    and "field_class obj' = field_class obj"
proof -
  from setter_result [OF assms] obtain o1 o2 where
    o1: "fields_rel o1 = kept obj" "same_cols (store obj) (store o1)"
      "field_class o1 = field_class obj"
    and a: "assign_fields (fldmap_of obj) value o1 = Inr o2" and r: "obj' = reorder o2"
    by blast
  have len: "length (store o1) = length (store obj)"
    using same_cols_length [OF o1(2)] .
  show "fields_rel obj' = kept obj @ targets (fldmap_of obj) (length (store obj)) value"
    using assign_fields_shape [OF a] o1 len r by (simp add: reorder_def)
  show "length (store obj') = length (store obj) + created value"
    using assign_fields_shape [OF a] len r by (simp add: reorder_def length_reorder_from)
  show "field_class obj' = field_class obj"
    using assign_fields_shape [OF a] o1 r by (simp add: reorder_def)
qed

lemma setter_kind:
  assumes "setter obj value = Inr obj'" "d \<in> set value"
  shows "id_truthy d \<longleftrightarrow> truthy (desc_id d)"
proof -
  from setter_result [OF assms(1)] obtain o1 o2 where
    a: "assign_fields (fldmap_of obj) value o1 = Inr o2" by blast
  show ?thesis by (rule assign_fields_kind [OF a assms(2)])
qed

lemma setter_nth:
  assumes "setter obj value = Inr obj'" "i < length value"
  shows "fields_rel obj' ! (length (kept obj) + i) =
           target (fldmap_of obj) (length (store obj) + created (take i value)) (value ! i)"
  using assms by (simp add: setter_fields(1) [OF assms(1)] nth_append targets_nth)

lemma setter_nth_existing:
  assumes "setter obj value = Inr obj'" "i < length value" "truthy (desc_id (value ! i))"
  shows "fields_rel obj' ! (length (kept obj) + i) \<in> set (fields_rel obj)"
    and "id_col (store obj ! (fields_rel obj' ! (length (kept obj) + i))) = desc_id (value ! i)"
proof -
  from setter_result [OF assms(1)] obtain o1 o2 where
    a: "assign_fields (fldmap_of obj) value o1 = Inr o2" by blast
  let ?n = "length (store obj) + created (take i value)"
  have "fldmap_of obj (the (desc_id (value ! i))) = Some (target (fldmap_of obj) ?n (value ! i))"
    using assign_fields_hits [OF a _ assms(3)] assms(2) by simp
  from fldmap_of_hit [OF assms(3) this] setter_nth [OF assms(1,2)]
  show "fields_rel obj' ! (length (kept obj) + i) \<in> set (fields_rel obj)"
    and "id_col (store obj ! (fields_rel obj' ! (length (kept obj) + i))) = desc_id (value ! i)"
    by simp_all
qed

lemma setter_nth_new:
  assumes "setter obj value = Inr obj'" "i < length value" "\<not> truthy (desc_id (value ! i))"
  shows "fields_rel obj' ! (length (kept obj) + i) = length (store obj) + created (take i value)"
  using setter_nth [OF assms(1,2)] assms(3) setter_kind [OF assms(1), of "value ! i"] assms(2)
  by (simp add: target_def)

subsection \<open>The label field\<close>


subsection \<open>The sample write\<close>

lemmas setter_eval =
  setter_def assign_one_def find_mfld_def get_id_def fldmap_get_def format_d_def truthy_def
  label_flag_def Let_def assign_attrs_def append_ol_def pop_ol_def reorder_def order_entity_def
  new_field_def

lemma sample_written_eq: "setter sample_layer sample_value = Inr sample_written"
  by (simp add: setter_eval sample_layer_def sample_store_def sample_value_def sample_written_def)

lemma sample_kept: "kept sample_layer = [2]"
  by (simp add: kept_def sample_layer_def sample_store_def truthy_def)

lemma sample_wf: "wf_layer sample_layer"
  by (simp add: wf_layer_def sample_layer_def sample_store_def)

subsection \<open>Claim C5\<close>



subsection \<open>Where the objects of the collection come from\<close>

lemma targets_mem_cases:
  assumes "wf_layer obj" "assign_fields (fldmap_of obj) ds ob = Inr ob'"
    "t \<in> set (targets (fldmap_of obj) n ds)"
  shows "(t \<in> set (fields_rel obj) \<and> t < length (store obj) \<and>
            (\<exists>d\<in>set ds. truthy (desc_id d) \<and> id_col (store obj ! t) = desc_id d \<and>
               fldmap_of obj (the (desc_id d)) = Some t)) \<or>
         (n \<le> t \<and> t < n + created ds)"
proof -
  from targets_mem [OF assms(3)] show ?thesis
  proof
    assume "\<exists>d\<in>set ds. id_truthy d \<and> t = the (fldmap_of obj (the (desc_id d)))"
    then obtain d where d: "d \<in> set ds" "id_truthy d"
      "t = the (fldmap_of obj (the (desc_id d)))" by blast
    have td: "truthy (desc_id d)" using assign_fields_kind [OF assms(2) d(1)] d(2) by simp
    have "fldmap_of obj (the (desc_id d)) = Some (target (fldmap_of obj) n d)"
      using assign_fields_hits [OF assms(2) d(1) td] .
    then have h: "fldmap_of obj (the (desc_id d)) = Some t" using d(3) by simp
    from fldmap_of_hit [OF td h] have "t \<in> set (fields_rel obj)"
      "id_col (store obj ! t) = desc_id d" by simp_all
    moreover from this(1) assms(1) have "t < length (store obj)" by (simp add: wf_layer_def)
    ultimately show ?thesis using d(1) td h by blast
  next
    assume "n \<le> t \<and> t < n + created ds"
    then show ?thesis by simp
  qed
qed

lemma targets_split:
  assumes "i < length ds"
  shows "targets fm n ds =
     targets fm n (take i ds) @ target fm (n + created (take i ds)) (ds ! i) #
       targets fm (n + created (take (Suc i) ds)) (drop (Suc i) ds)"
proof -
  have "targets fm n ds = targets fm n (take i ds @ (ds ! i # drop (Suc i) ds))"
    using assms by (simp add: id_take_nth_drop [symmetric])
  also have "\<dots> = targets fm n (take i ds) @
      targets fm (n + created (take i ds)) (ds ! i # drop (Suc i) ds)"
    by (rule targets_append)
  also have "targets fm (n + created (take i ds)) (ds ! i # drop (Suc i) ds) =
      target fm (n + created (take i ds)) (ds ! i) #
       targets fm (n + created (take (Suc i) ds)) (drop (Suc i) ds)"
    using assms by (simp add: created_take_Suc)
  finally show ?thesis .
qed

text \<open>A write that returns has put no object into the collection twice.\<close>

lemma setter_distinct:
  assumes wf: "wf_layer obj" and s: "setter obj value = Inr obj'"
  shows "distinct (fields_rel obj')"
proof -
  from setter_result [OF s] obtain o1 o2 where
    o1: "fields_rel o1 = kept obj"
    and a: "assign_fields (fldmap_of obj) value o1 = Inr o2" and r: "obj' = reorder o2"
    by blast
  have "distinct (fields_rel o1)" using wf o1 by (simp add: kept_def wf_layer_def)
  from assign_fields_distinct [OF a this] show ?thesis using r by (simp add: reorder_def)
qed

lemma setter_target_once:
  assumes wf: "wf_layer obj" and s: "setter obj value = Inr obj'" and i: "i < length value"
  shows "fields_rel obj' ! (length (kept obj) + i)
           \<notin> set (targets (fldmap_of obj) (length (store obj)) (take i value))"
    and "fields_rel obj' ! (length (kept obj) + i)
           \<notin> set (targets (fldmap_of obj) (length (store obj) + created (take (Suc i) value))
                   (drop (Suc i) value))"
    and "fields_rel obj' ! (length (kept obj) + i) \<notin> set (kept obj)"
proof -
  let ?fm = "fldmap_of obj"
  let ?N = "length (store obj)"
  have d: "distinct (kept obj @ targets ?fm ?N value)"
    using setter_distinct [OF wf s] by (simp add: setter_fields(1) [OF s])
  have t: "targets ?fm ?N value =
     targets ?fm ?N (take i value) @ target ?fm (?N + created (take i value)) (value ! i) #
       targets ?fm (?N + created (take (Suc i) value)) (drop (Suc i) value)"
    by (rule targets_split [OF i])
  have r: "fields_rel obj' ! (length (kept obj) + i)
             = target ?fm (?N + created (take i value)) (value ! i)"
    by (rule setter_nth [OF s i])
  have d': "distinct (kept obj @ targets ?fm ?N (take i value) @
      target ?fm (?N + created (take i value)) (value ! i) #
       targets ?fm (?N + created (take (Suc i) value)) (drop (Suc i) value))"
    using d t by simp
  show "fields_rel obj' ! (length (kept obj) + i)
           \<notin> set (targets ?fm ?N (take i value))"
    using d' r by auto
  show "fields_rel obj' ! (length (kept obj) + i)
           \<notin> set (targets ?fm (?N + created (take (Suc i) value)) (drop (Suc i) value))"
    using d' r by auto
  show "fields_rel obj' ! (length (kept obj) + i) \<notin> set (kept obj)"
    using d' r by auto
qed

lemma setter_store_new:
  assumes wf: "wf_layer obj" and s: "setter obj value = Inr obj'"
    and i: "i < length value" and f: "\<not> truthy (desc_id (value ! i))"
  shows "(store obj' ! (length (store obj) + created (take i value)))\<lparr>idx := x\<rparr> =
           (assign_attrs (value ! i)
              (new_field (field_class obj) (the (fd_datatype (value ! i)))))\<lparr>idx := x\<rparr>"
proof -
  let ?fm = "fldmap_of obj"
  let ?n = "length (store obj) + created (take i value)"
  from setter_result [OF s] obtain o1 o2 where
    o1: "same_cols (store obj) (store o1)" "field_class o1 = field_class obj"
    and a: "assign_fields ?fm value o1 = Inr o2" and r: "obj' = reorder o2"
    by blast
  from assign_fields_split [OF a i] obtain p q where
    p: "assign_fields ?fm (take i value) o1 = Inr p"
    and q: "assign_one ?fm (value ! i) p = Inr q"
    and t: "assign_fields ?fm (drop (Suc i) value) q = Inr o2"
    by blast
  have nf: "\<not> id_truthy (value ! i)" using assign_one_kind [OF q] f by simp
  have lp: "length (store p) = ?n" and cp: "field_class p = field_class obj"
    using assign_fields_shape [OF p] same_cols_length [OF o1(1)] o1(2) by simp_all
  have lq: "length (store q) = Suc ?n"
    using assign_one_length [OF q] nf lp by simp
  have rn: "fields_rel obj' ! (length (kept obj) + i) = ?n"
    using setter_nth [OF s i] nf by (simp add: target_def)
  have "?n \<notin> set (targets ?fm (length (store obj) + created (take (Suc i) value))
                   (drop (Suc i) value))"
    using setter_target_once(2) [OF wf s i] rn by simp
  then have notin: "?n \<notin> set (targets ?fm (length (store q)) (drop (Suc i) value))"
    using lq nf i by (simp add: created_take_Suc)
  have "store o2 ! ?n = store q ! ?n"
    using notin lq by (intro assign_fields_other [OF t]) simp_all
  moreover have "(store q ! ?n)\<lparr>idx := x\<rparr> =
      (assign_attrs (value ! i) (new_field (field_class obj) (the (fd_datatype (value ! i)))))\<lparr>idx := x\<rparr>"
    using assign_one_new [OF q nf, of x] lp cp by simp
  moreover have "(store obj' ! ?n)\<lparr>idx := x\<rparr> = (store o2 ! ?n)\<lparr>idx := x\<rparr>"
    using same_cols_nth [OF same_cols_reorder_from] r by (simp add: reorder_def)
  ultimately show ?thesis by simp
qed


lemma setter_kept:
  assumes "setter obj value = Inr obj'" "r \<in> set (fields_rel obj)"
    "\<not> truthy (id_col (store obj ! r))"
  shows "r \<in> set (fields_rel obj')"
  using assms by (simp add: setter_fields(1) [OF assms(1)] kept_def)



subsection \<open>How one descriptor is handled\<close>

lemma append_ol_Inr_iff: "(\<exists>obj'. append_ol m obj = Inr obj') \<longleftrightarrow> m \<notin> set (fields_rel obj)"
  by (simp add: append_ol_def)

lemma append_ol_Inl: "append_ol m obj = Inl e \<Longrightarrow> e = InvalidRequestError"
  by (simp add: append_ol_def split: if_splits)

lemma assign_one_non_integer:
  "non_integer_id d \<Longrightarrow> assign_one fm d obj = Inl error.TypeError"
  by (simp add: assign_one_def find_mfld_non_integer)

lemma assign_one_miss:
  "truthy (desc_id d) \<Longrightarrow> fm (the (desc_id d)) = None \<Longrightarrow>
     assign_one fm d obj = Inl (ValidationError (the (desc_id d)))"
  by (simp add: assign_one_def find_mfld_truthy)

lemma assign_one_twice:
  "truthy (desc_id d) \<Longrightarrow> fm (the (desc_id d)) = Some m \<Longrightarrow> m \<in> set (fields_rel obj) \<Longrightarrow>
     assign_one fm d obj = Inl InvalidRequestError"
  by (simp add: assign_one_def find_mfld_truthy append_ol_def Let_def)

lemma assign_one_found:
  "truthy (desc_id d) \<Longrightarrow> fm (the (desc_id d)) = Some m \<Longrightarrow> m \<notin> set (fields_rel obj) \<Longrightarrow>
     \<exists>obj'. assign_one fm d obj = Inr obj'"
  by (simp add: assign_one_def find_mfld_truthy append_ol_def Let_def)

lemma assign_one_no_datatype:
  "\<not> id_truthy d \<Longrightarrow> fd_datatype d = None \<Longrightarrow>
     assign_one fm d obj = Inl (KeyError ''datatype'')"
  by (simp add: assign_one_def find_mfld_falsy)

lemma assign_one_create:
  "\<not> id_truthy d \<Longrightarrow> fd_datatype d \<noteq> None \<Longrightarrow> length (store obj) \<notin> set (fields_rel obj) \<Longrightarrow>
     \<exists>obj'. assign_one fm d obj = Inr obj'"
  by (auto simp add: assign_one_def find_mfld_falsy append_ol_def Let_def)

lemma assign_one_create_Inl:
  "\<not> id_truthy d \<Longrightarrow> fd_datatype d \<noteq> None \<Longrightarrow> length (store obj) \<in> set (fields_rel obj) \<Longrightarrow>
     assign_one fm d obj = Inl InvalidRequestError"
  by (auto simp add: assign_one_def find_mfld_falsy append_ol_def Let_def)

lemma assign_one_validation_iff:
  "(\<exists>k. assign_one fm d obj = Inl (ValidationError k)) \<longleftrightarrow>
     truthy (desc_id d) \<and> fm (the (desc_id d)) = None"
proof (cases "non_integer_id d")
  case True
  then show ?thesis using non_integer_not_truthy [OF True] by (simp add: assign_one_non_integer)
next
  case ni: False
  show ?thesis
  proof (cases "truthy (desc_id d)")
    case True
    show ?thesis
    proof (cases "fm (the (desc_id d))")
      case None
      then show ?thesis using True by (simp add: assign_one_miss)
    next
      case (Some m)
      show ?thesis
      proof (cases "m \<in> set (fields_rel obj)")
        case True
        then show ?thesis using \<open>truthy (desc_id d)\<close> Some by (simp add: assign_one_twice)
      next
        case False
        have "\<exists>obj'. assign_one fm d obj = Inr obj'"
          using \<open>truthy (desc_id d)\<close> Some False by (rule assign_one_found [of d fm m obj])
        then show ?thesis using Some by auto
      qed
    qed
  next
    case False
    then have n: "\<not> id_truthy d" using ni by (simp add: id_truthy_iff)
    show ?thesis
    proof (cases "fd_datatype d")
      case None
      then show ?thesis using False n by (simp add: assign_one_no_datatype)
    next
      case (Some dt)
      show ?thesis
      proof (cases "length (store obj) \<in> set (fields_rel obj)")
        case True
        then show ?thesis using False n Some by (simp add: assign_one_create_Inl)
      next
        case nin: False
        have "\<exists>obj'. assign_one fm d obj = Inr obj'"
          using n Some nin by (intro assign_one_create) simp_all
        then show ?thesis using False by auto
      qed
    qed
  qed
qed


subsection \<open>Falsy ids\<close>

lemma zero_id_written_eq: "setter sample_layer zero_id_value = Inr zero_id_written"
  by (simp add: setter_eval sample_layer_def sample_store_def zero_id_value_def zero_id_written_def)

lemma assign_attrs_without_id: "assign_attrs (d\<lparr>fd_id := None\<rparr>) f = assign_attrs d f"
  by (simp add: assign_attrs_def)

lemma label_flag_without_id: "label_flag (d\<lparr>fd_id := None\<rparr>) = label_flag d"
  by (simp add: label_flag_def)

lemma find_mfld_falsy_id:
  "\<not> id_truthy d \<Longrightarrow> find_mfld fm (d\<lparr>fd_id := None\<rparr>) obj = find_mfld fm d obj"
  by (simp add: find_mfld_def id_truthy_def get_id_def Let_def)

lemma assign_one_falsy_id:
  "\<not> id_truthy d \<Longrightarrow> assign_one fm (d\<lparr>fd_id := None\<rparr>) obj = assign_one fm d obj"
  by (simp add: assign_one_def find_mfld_falsy_id assign_attrs_without_id label_flag_without_id
      Let_def split: sum.splits prod.splits)

lemma assign_fields_falsy_id:
  "\<not> id_truthy d \<Longrightarrow>
     assign_fields fm (xs @ d\<lparr>fd_id := None\<rparr> # ys) obj = assign_fields fm (xs @ d # ys) obj"
  by (simp add: assign_fields_append assign_one_falsy_id split: sum.splits)

lemma kept_bound: "wf_layer obj \<Longrightarrow> r \<in> set (kept obj) \<Longrightarrow> r < length (store obj)"
  by (simp add: wf_layer_def kept_def)

lemma setter_returns_single:
  assumes "wf_layer obj" "\<not> id_truthy d" "fd_datatype d \<noteq> None"
  shows "\<exists>obj'. setter obj [d] = Inr obj'"
proof -
  from setter_unfold [of obj "[d]"] obtain o1 where
    o1: "fields_rel o1 = kept obj" "same_cols (store obj) (store o1)"
    and s: "setter obj [d] =
        (case assign_fields (fldmap_of obj) [d] o1 of
           Inl e \<Rightarrow> Inl e | Inr obj2 \<Rightarrow> Inr (reorder obj2))"
    by blast
  have "length (store o1) \<notin> set (fields_rel o1)"
    using kept_bound [OF assms(1), of "length (store o1)"] o1 same_cols_length [OF o1(2)]
    by auto
  from assign_one_create [OF assms(2,3) this] obtain o2 where
    "assign_one (fldmap_of obj) d o1 = Inr o2" by blast
  then show ?thesis using s by simp
qed

lemma assign_one_validation_id:
  assumes "assign_one fm d obj = Inl (ValidationError k)"
  shows "desc_id d = Some k \<and> k \<noteq> 0"
proof -
  have t: "truthy (desc_id d)" "fm (the (desc_id d)) = None"
    using assign_one_validation_iff [of fm d obj] assms by blast+
  from truthy_Some [OF t(1)] obtain n where n: "desc_id d = Some n" "n \<noteq> 0" by blast
  have "assign_one fm d obj = Inl (ValidationError (the (desc_id d)))"
    using t by (rule assign_one_miss [of d fm obj])
  then show ?thesis using assms n by simp
qed

lemma assign_fields_validation_id:
  "assign_fields fm ds obj = Inl (ValidationError k) \<Longrightarrow>
     k \<noteq> 0 \<and> (\<exists>d\<in>set ds. desc_id d = Some k)"
proof (induction ds arbitrary: obj)
  case Nil
  then show ?case by simp
next
  case (Cons d ds)
  show ?case
  proof (cases "assign_one fm d obj")
    case (Inl e)
    then have "assign_one fm d obj = Inl (ValidationError k)" using Cons.prems by simp
    from assign_one_validation_id [OF this] show ?thesis by simp
  next
    case (Inr obj1)
    then have "assign_fields fm ds obj1 = Inl (ValidationError k)" using Cons.prems by simp
    from Cons.IH [OF this] show ?thesis by simp
  qed
qed

lemma setter_validation_id:
  assumes "setter obj value = Inl (ValidationError k)"
  shows "k \<noteq> 0 \<and> (\<exists>d\<in>set value. desc_id d = Some k)"
proof -
  from setter_unfold [of obj "value"] obtain o1 where
    s: "setter obj value =
        (case assign_fields (fldmap_of obj) value o1 of
           Inl e \<Rightarrow> Inl e | Inr obj2 \<Rightarrow> Inr (reorder obj2))"
    by blast
  from s assms have "assign_fields (fldmap_of obj) value o1 = Inl (ValidationError k)"
    by (simp split: sum.splits)
  then show ?thesis by (rule assign_fields_validation_id)
qed

text \<open>
  Claim C8. A descriptor whose id is falsy (absent, null, zero, false or empty) is
  handled exactly as the same descriptor without the key \<open>id\<close>: the write returns the
  same result or raises the same error; alone, with a datatype and on a layer whose
  collection holds objects of the store, it returns. A validation error always carries
  a nonzero id that some descriptor submitted. In a write that returns, every existing
  field whose id is falsy is still in the collection, and the field put into the
  collection for a descriptor with a falsy id is an object created by the write: it is
  not a field the layer had, and it has no id.
\<close>

theorem setter_falsy_id:
  "(\<not> id_truthy d \<longrightarrow>
      setter obj (xs @ d # ys) = setter obj (xs @ d\<lparr>fd_id := None\<rparr> # ys) \<and>
      (wf_layer obj \<and> fd_datatype d \<noteq> None \<longrightarrow> (\<exists>obj1. setter obj [d] = Inr obj1))) \<and>
   (\<forall>k. setter obj value = Inl (ValidationError k) \<longrightarrow>
      k \<noteq> 0 \<and> (\<exists>e\<in>set value. desc_id e = Some k)) \<and>
   (setter obj value = Inr obj' \<longrightarrow>
      (\<forall>r\<in>set (fields_rel obj). \<not> truthy (id_col (store obj ! r)) \<longrightarrow> r \<in> set (fields_rel obj')) \<and>
      (\<forall>i<length value. \<not> truthy (desc_id (value ! i)) \<longrightarrow>
         \<not> id_truthy (value ! i) \<and>
         fields_rel obj' ! (length (kept obj) + i)
           = length (store obj) + created (take i value))) \<and>
   (wf_layer obj \<and> setter obj value = Inr obj' \<longrightarrow>
      (\<forall>i<length value. \<not> truthy (desc_id (value ! i)) \<longrightarrow>
         fields_rel obj' ! (length (kept obj) + i) \<notin> set (fields_rel obj) \<and>
         id_col (store obj' ! (fields_rel obj' ! (length (kept obj) + i))) = None))"
proof (intro conjI impI allI ballI)
  assume "\<not> id_truthy d"
  then show "setter obj (xs @ d # ys) = setter obj (xs @ d\<lparr>fd_id := None\<rparr> # ys)"
    by (simp add: setter_def assign_fields_falsy_id split: sum.splits prod.splits)
next
  assume "\<not> id_truthy d" "wf_layer obj \<and> fd_datatype d \<noteq> None"
  then show "\<exists>obj1. setter obj [d] = Inr obj1" by (simp add: setter_returns_single)
next
  fix k assume "setter obj value = Inl (ValidationError k)"
  from setter_validation_id [OF this]
  show "k \<noteq> 0" and "\<exists>e\<in>set value. desc_id e = Some k" by simp_all
next
  fix r
  assume "setter obj value = Inr obj'" "r \<in> set (fields_rel obj)"
    "\<not> truthy (id_col (store obj ! r))"
  then show "r \<in> set (fields_rel obj')" by (rule setter_kept)
next
  fix i
  assume a: "setter obj value = Inr obj'" "i < length value" "\<not> truthy (desc_id (value ! i))"
  show "\<not> id_truthy (value ! i)" using setter_kind [OF a(1), of "value ! i"] a(2,3) by simp
  from a show "fields_rel obj' ! (length (kept obj) + i)
           = length (store obj) + created (take i value)"
    by (rule setter_nth_new)
next
  fix i
  assume h: "wf_layer obj \<and> setter obj value = Inr obj'" and i: "i < length value"
    and f: "\<not> truthy (desc_id (value ! i))"
  let ?r = "fields_rel obj' ! (length (kept obj) + i)"
  have a: "?r = length (store obj) + created (take i value)"
    using setter_nth_new [OF _ i f] h by simp
  show "?r \<notin> set (fields_rel obj)"
    using a h by (auto simp: wf_layer_def)
  have "(store obj' ! ?r)\<lparr>idx := None\<rparr> =
           (assign_attrs (value ! i)
              (new_field (field_class obj) (the (fd_datatype (value ! i)))))\<lparr>idx := None\<rparr>"
    using setter_store_new [OF _ _ i f, of obj obj' None] h a by simp
  then have "id_col ((store obj' ! ?r)\<lparr>idx := None\<rparr>) =
           id_col ((assign_attrs (value ! i)
              (new_field (field_class obj) (the (fd_datatype (value ! i)))))\<lparr>idx := None\<rparr>)"
    by simp
  then show "id_col (store obj' ! ?r) = None"
    by (simp add: assign_attrs_fixed new_field_def)
qed

theorem setter_falsy_id_witness:
  "setter sample_layer zero_id_value
     = setter sample_layer [(zero_id_value ! 0)\<lparr>fd_id := None\<rparr>] \<and>
   setter sample_layer zero_id_value = Inr zero_id_written \<and>
   fields_rel zero_id_written ! 1 = 3 \<and> 3 \<notin> set (fields_rel sample_layer) \<and>
   id_col (store zero_id_written ! 3) = None \<and>
   2 \<in> set (fields_rel zero_id_written)"
proof -
  let ?d = "zero_id_value ! 0"
  note t = setter_falsy_id [of ?d sample_layer "[]" "[]" zero_id_value zero_id_written]
  have v: "zero_id_value = [?d]" by (simp add: zero_id_value_def)
  have v0: "setter sample_layer zero_id_value = setter sample_layer [?d]"
    by (rule arg_cong [OF v])
  have f: "\<not> truthy (desc_id ?d)"
    by (simp add: zero_id_value_def desc_id_def get_id_def truthy_def)
  have g: "\<not> id_truthy ?d"
    by (simp add: zero_id_value_def id_truthy_def get_id_def)
  have 1: "setter sample_layer ([] @ ?d # []) = setter sample_layer ([] @ ?d\<lparr>fd_id := None\<rparr> # [])"
    using t g by blast
  have h: "wf_layer sample_layer \<and> setter sample_layer zero_id_value = Inr zero_id_written"
    using sample_wf zero_id_written_eq by simp
  have i: "0 < length zero_id_value" by (simp add: zero_id_value_def)
  have 2: "fields_rel zero_id_written ! (length (kept sample_layer) + 0)
             = length (store sample_layer) + created (take 0 zero_id_value)"
    using t h i f by blast
  have 3: "fields_rel zero_id_written ! (length (kept sample_layer) + 0)
             \<notin> set (fields_rel sample_layer) \<and>
           id_col (store zero_id_written ! (fields_rel zero_id_written !
              (length (kept sample_layer) + 0))) = None"
    using t h i f by blast
  have k: "2 \<in> set (fields_rel sample_layer) \<and> \<not> truthy (id_col (store sample_layer ! 2))"
    by (simp add: sample_layer_def sample_store_def truthy_def)
  have 4: "2 \<in> set (fields_rel zero_id_written)"
    using t h k by blast
  have e: "fields_rel zero_id_written ! 1 = 3"
    by (simp add: zero_id_written_def)
  have a: "setter sample_layer zero_id_value = setter sample_layer [?d\<lparr>fd_id := None\<rparr>]"
    using v0 1 by simp
  have b: "3 \<notin> set (fields_rel sample_layer) \<and> id_col (store zero_id_written ! 3) = None"
    using 3 e by (auto simp add: sample_kept)
  show ?thesis
    using a b 4 h e by blast
qed

subsection \<open>Which writes return\<close>







subsection \<open>Claim C1\<close>





subsection \<open>Positions\<close>

lemma setter_bound:
  assumes wf: "wf_layer obj" and s: "setter obj value = Inr obj'"
  shows "\<forall>r\<in>set (fields_rel obj'). r < length (store obj')"
proof
  let ?fm = "fldmap_of obj"
  let ?ts = "targets ?fm (length (store obj)) value"
  from setter_result [OF s] obtain o1 o2 where
    a: "assign_fields ?fm value o1 = Inr o2" by blast
  have f: "fields_rel obj' = kept obj @ ?ts" by (rule setter_fields(1) [OF s])
  have l: "length (store obj') = length (store obj) + created value"
    by (rule setter_fields(2) [OF s])
  fix r assume "r \<in> set (fields_rel obj')"
  then have "r \<in> set (kept obj) \<or> r \<in> set ?ts" using f by simp
  then show "r < length (store obj')"
  proof
    assume "r \<in> set (kept obj)"
    from kept_bound [OF wf this] show ?thesis using l by simp
  next
    assume "r \<in> set ?ts"
    from targets_mem_cases [OF wf a this] show ?thesis using l by auto
  qed
qed

lemma setter_wf:
  assumes "wf_layer obj" "setter obj value = Inr obj'"
  shows "wf_layer obj'"
  using setter_distinct [OF assms] setter_bound [OF assms] by (simp add: wf_layer_def)

lemma setter_idx:
  assumes wf: "wf_layer obj" and s: "setter obj value = Inr obj'"
    and p: "p < length (fields_rel obj')"
  shows "idx (store obj' ! (fields_rel obj' ! p)) = Some (int p)"
proof -
  from setter_result [OF s] obtain o1 o2 where r: "obj' = reorder o2" by blast
  have f: "fields_rel o2 = fields_rel obj'" and l: "length (store o2) = length (store obj')"
    using r by (simp_all add: reorder_def length_reorder_from)
  have "idx (reorder_from 0 (fields_rel o2) (store o2) ! (fields_rel o2 ! p)) = Some (int (0 + p))"
    using setter_distinct [OF wf s] setter_bound [OF wf s] p f l
    by (intro reorder_from_idx) simp_all
  then show ?thesis using r by (simp add: reorder_def)
qed

subsection \<open>Claim C4\<close>

lemma swap_written_eq: "setter persisted_layer swap_value = Inr swap_written"
  by (simp add: setter_eval persisted_layer_def sample_store_def swap_value_def swap_written_def)

lemma persisted_wf: "wf_layer persisted_layer"
  by (simp add: wf_layer_def persisted_layer_def sample_store_def)

lemma kept_Nil: "\<forall>r\<in>set (fields_rel obj). truthy (id_col (store obj ! r)) \<Longrightarrow> kept obj = []"
  by (simp add: kept_def)

text \<open>
  Claim C4, as the code has it. After a write that returns, on a layer whose collection
  holds objects of the store, none twice: the collection again holds objects of the
  store, none twice; it has one field per kept (falsy-id) existing field and per
  descriptor, and the \<open>idx\<close> of every field is its position in the collection, so the
  values run from zero without gaps. The field of the descriptor at submission position
  \<open>i\<close> has \<open>idx\<close> equal to \<open>i\<close> plus the number of kept fields; an existing field
  submitted by id gets that \<open>idx\<close>; and when every existing field has a truthy id,
  \<open>idx\<close> is the submission position itself.
\<close>

theorem setter_idx_positions:
  "wf_layer obj \<Longrightarrow> setter obj value = Inr obj' \<Longrightarrow>
     wf_layer obj' \<and>
     length (fields_rel obj') = length (kept obj) + length value \<and>
     (\<forall>p<length (fields_rel obj'). idx (store obj' ! (fields_rel obj' ! p)) = Some (int p)) \<and>
     (\<forall>i<length value.
        idx (store obj' ! (fields_rel obj' ! (length (kept obj) + i)))
          = Some (int (length (kept obj) + i))) \<and>
     (\<forall>i<length value. truthy (desc_id (value ! i)) \<longrightarrow>
        (\<exists>r\<in>set (fields_rel obj). id_col (store obj ! r) = desc_id (value ! i) \<and>
           idx (store obj' ! r) = Some (int (length (kept obj) + i)))) \<and>
     ((\<forall>r\<in>set (fields_rel obj). truthy (id_col (store obj ! r))) \<longrightarrow>
        (\<forall>i<length value. idx (store obj' ! (fields_rel obj' ! i)) = Some (int i)))"
proof -
  assume wf: "wf_layer obj" and s: "setter obj value = Inr obj'"
  have 0: "wf_layer obj'" by (rule setter_wf [OF wf s])
  have 1: "length (fields_rel obj') = length (kept obj) + length value"
    by (simp add: setter_fields(1) [OF s] length_targets)
  have 2: "idx (store obj' ! (fields_rel obj' ! p)) = Some (int p)"
    if "p < length (fields_rel obj')" for p
    using setter_idx [OF wf s that] .
  have 3: "idx (store obj' ! (fields_rel obj' ! (length (kept obj) + i)))
          = Some (int (length (kept obj) + i))" if "i < length value" for i
    using 2 [of "length (kept obj) + i"] 1 that by simp
  have 4: "\<exists>r\<in>set (fields_rel obj). id_col (store obj ! r) = desc_id (value ! i) \<and>
           idx (store obj' ! r) = Some (int (length (kept obj) + i))"
    if "i < length value" "truthy (desc_id (value ! i))" for i
    using setter_nth_existing [OF s that] 3 [OF that(1)] by blast
  have 5: "idx (store obj' ! (fields_rel obj' ! i)) = Some (int i)"
    if "\<forall>r\<in>set (fields_rel obj). truthy (id_col (store obj ! r))" "i < length value" for i
    using 3 [OF that(2)] kept_Nil [OF that(1)] by simp
  show ?thesis using 0 1 2 3 4 5 by blast
qed

theorem setter_idx_positions_witness:
  "setter persisted_layer swap_value = Inr swap_written \<and>
   fields_rel swap_written = [1, 0] \<and>
   idx (store swap_written ! 1) = Some 0 \<and> idx (store swap_written ! 0) = Some 1 \<and>
   setter sample_layer sample_value = Inr sample_written \<and>
   fields_rel sample_written = [2, 1, 3] \<and>
   idx (store sample_written ! 2) = Some 0 \<and> idx (store sample_written ! 1) = Some 1 \<and>
   idx (store sample_written ! 3) = Some 2"
proof -
  note t1 = setter_idx_positions [OF persisted_wf swap_written_eq]
  note t2 = setter_idx_positions [OF sample_wf sample_written_eq]
  have e1: "fields_rel swap_written = [1, 0]" by (simp add: swap_written_def)
  have e2: "fields_rel sample_written = [2, 1, 3]" by (simp add: sample_written_def)
  have all: "\<forall>r\<in>set (fields_rel persisted_layer). truthy (id_col (store persisted_layer ! r))"
    by (simp add: persisted_layer_def sample_store_def truthy_def)
  have l1: "0 < length swap_value" "1 < length swap_value" by (simp_all add: swap_value_def)
  from t1 all l1 have
    "idx (store swap_written ! (fields_rel swap_written ! 0)) = Some (int 0)"
    "idx (store swap_written ! (fields_rel swap_written ! 1)) = Some (int 1)"
    by blast+
  then have a: "idx (store swap_written ! 1) = Some 0" "idx (store swap_written ! 0) = Some 1"
    by (simp_all add: e1)
  have l2: "0 < length (fields_rel sample_written)" "1 < length (fields_rel sample_written)"
    "2 < length (fields_rel sample_written)" by (simp_all add: e2)
  from t2 l2 have
    "idx (store sample_written ! (fields_rel sample_written ! 0)) = Some (int 0)"
    "idx (store sample_written ! (fields_rel sample_written ! 1)) = Some (int 1)"
    "idx (store sample_written ! (fields_rel sample_written ! 2)) = Some (int 2)"
    by blast+
  then have b: "idx (store sample_written ! 2) = Some 0" "idx (store sample_written ! 1) = Some 1"
    "idx (store sample_written ! 3) = Some 2"
    by (simp_all add: e2)
  show ?thesis using swap_written_eq sample_written_eq e1 e2 a b by simp
qed

text \<open>
  The sample write: the descriptor submitted first carries id 7; the field with id 7 ends
  with \<open>idx\<close> 1, not 0, the unflushed field of the layer being kept ahead of it.
\<close>

theorem setter_idx_positions_counterexample:
  "setter sample_layer sample_value = Inr sample_written \<and>
   desc_id (sample_value ! 0) = Some 7 \<and>
   id_col (store sample_written ! 1) = Some 7 \<and>
   fields_rel sample_written ! 1 = 1 \<and>
   idx (store sample_written ! 1) = Some 1"
  using sample_written_eq
  by (simp add: sample_value_def desc_id_def get_id_def sample_written_def)

subsection \<open>Writing back what was read\<close>

lemma idx_update_same: "idx f = x \<Longrightarrow> f\<lparr>idx := x\<rparr> = f"
  by (cases f) simp

lemma same_cols_cols:
  assumes "same_cols st st'"
  shows "keyname (st' ! r) = keyname (st ! r)" "display_name (st' ! r) = display_name (st ! r)"
    "grid_visibility (st' ! r) = grid_visibility (st ! r)"
proof -
  have e: "(st' ! r)\<lparr>idx := None\<rparr> = (st ! r)\<lparr>idx := None\<rparr>"
    using same_cols_nth [OF assms] .
  have "keyname ((st' ! r)\<lparr>idx := None\<rparr>) = keyname ((st ! r)\<lparr>idx := None\<rparr>)"
    by (simp only: e)
  then show "keyname (st' ! r) = keyname (st ! r)" by simp
  have "display_name ((st' ! r)\<lparr>idx := None\<rparr>) = display_name ((st ! r)\<lparr>idx := None\<rparr>)"
    by (simp only: e)
  then show "display_name (st' ! r) = display_name (st ! r)" by simp
  have "grid_visibility ((st' ! r)\<lparr>idx := None\<rparr>) = grid_visibility ((st ! r)\<lparr>idx := None\<rparr>)"
    by (simp only: e)
  then show "grid_visibility (st' ! r) = grid_visibility (st ! r)" by simp
qed

lemma assign_attrs_same:
  "fd_keyname d = Some (keyname f) \<Longrightarrow> fd_display_name d = Some (display_name f) \<Longrightarrow>
   fd_grid_visibility d = Some (grid_visibility f) \<Longrightarrow> assign_attrs d f = f"
  by (simp add: assign_attrs_def)

lemma assign_attrs_to_desc:
  assumes "same_cols (store obj) st"
  shows "assign_attrs (to_desc obj r) (st ! r) = st ! r"
proof (rule assign_attrs_same)
  show "fd_keyname (to_desc obj r) = Some (keyname (st ! r))"
    by (simp add: to_desc_def same_cols_cols(1) [OF assms])
  show "fd_display_name (to_desc obj r) = Some (display_name (st ! r))"
    by (simp add: to_desc_def same_cols_cols(2) [OF assms])
  show "fd_grid_visibility (to_desc obj r) = Some (grid_visibility (st ! r))"
    by (simp add: to_desc_def same_cols_cols(3) [OF assms])
qed

lemma to_desc_flags:
  "desc_id (to_desc obj r) = id_col (store obj ! r)"
  "label_flag (to_desc obj r) = (Some r = feature_label_field obj)"
  by (simp_all add: to_desc_def desc_id_def get_id_def label_flag_def split: option.splits)

lemma assign_one_to_desc:
  assumes sc: "same_cols (store obj) (store ob)"
    and t: "truthy (id_col (store obj ! r))"
    and h: "fldmap_of obj (the (id_col (store obj ! r))) = Some r"
    and n: "r \<notin> set (fields_rel ob)"
  shows "\<exists>ob1. assign_one (fldmap_of obj) (to_desc obj r) ob = Inr ob1 \<and>
      fields_rel ob1 = fields_rel ob @ [r] \<and> same_cols (store obj) (store ob1) \<and>
      (\<forall>q. q \<noteq> r \<longrightarrow> store ob1 ! q = store ob ! q) \<and>
      feature_label_field ob1 =
        (if Some r = feature_label_field obj then Some r else feature_label_field ob) \<and>
      field_class ob1 = field_class ob"
proof -
  have td: "truthy (desc_id (to_desc obj r))" using t by (simp add: to_desc_flags(1))
  have f: "find_mfld (fldmap_of obj) (to_desc obj r) ob = Inr (r, ob)"
    using find_mfld_truthy [OF td, of "fldmap_of obj" ob] h by (simp add: to_desc_flags(1))
  have u: "(store ob)[r := assign_attrs (to_desc obj r) (store ob ! r)] = store ob"
    by (simp add: assign_attrs_to_desc [OF sc])
  let ?ob3 = "if Some r = feature_label_field obj then ob\<lparr>feature_label_field := Some r\<rparr> else ob"
  let ?ob4 = "?ob3\<lparr>fields_rel := fields_rel ob @ [r],
                 store := order_entity (length (fields_rel ob)) r False (store ob)\<rparr>"
  have "assign_one (fldmap_of obj) (to_desc obj r) ob = append_ol r ?ob3"
    by (simp add: assign_one_def f u to_desc_flags(2) Let_def)
  also have "\<dots> = Inr ?ob4" using n by (simp add: append_ol_def)
  finally have a: "assign_one (fldmap_of obj) (to_desc obj r) ob = Inr ?ob4" .
  have st: "store ?ob4 = order_entity (length (fields_rel ob)) r False (store ob)"
    by simp
  have "same_cols (store obj) (store ?ob4)"
    unfolding st using same_cols_trans [OF sc same_cols_order_entity] .
  moreover have "\<forall>q. q \<noteq> r \<longrightarrow> store ?ob4 ! q = store ob ! q"
    unfolding st by (simp add: order_entity_other)
  moreover have "fields_rel ?ob4 = fields_rel ob @ [r]" by simp
  moreover have "feature_label_field ?ob4 =
        (if Some r = feature_label_field obj then Some r else feature_label_field ob)"
    by simp
  moreover have "field_class ?ob4 = field_class ob" by simp
  ultimately show ?thesis using a by blast
qed

lemma assign_fields_to_desc:
  assumes h: "\<forall>r\<in>set rs. truthy (id_col (store obj ! r)) \<and>
                fldmap_of obj (the (id_col (store obj ! r))) = Some r"
  shows "same_cols (store obj) (store ob) \<Longrightarrow> distinct rs \<Longrightarrow>
    set rs \<inter> set (fields_rel ob) = {} \<Longrightarrow>
    \<exists>ob'. assign_fields (fldmap_of obj) (map (to_desc obj) rs) ob = Inr ob' \<and>
      fields_rel ob' = fields_rel ob @ rs \<and> same_cols (store obj) (store ob') \<and>
      (\<forall>q. q \<notin> set rs \<longrightarrow> store ob' ! q = store ob ! q) \<and>
      feature_label_field ob' =
        (if \<exists>r\<in>set rs. Some r = feature_label_field obj then feature_label_field obj
         else feature_label_field ob) \<and>
      field_class ob' = field_class ob"
  using h
proof (induction rs arbitrary: ob)
  case Nil
  then show ?case by simp
next
  case (Cons r rs)
  from Cons.prems(4) have hr: "truthy (id_col (store obj ! r))"
    "fldmap_of obj (the (id_col (store obj ! r))) = Some r" by simp_all
  have nr: "r \<notin> set (fields_rel ob)" using Cons.prems(3) by simp
  from assign_one_to_desc [OF Cons.prems(1) hr nr] obtain ob1 where
    1: "assign_one (fldmap_of obj) (to_desc obj r) ob = Inr ob1"
      "fields_rel ob1 = fields_rel ob @ [r]" "same_cols (store obj) (store ob1)"
      "\<forall>q. q \<noteq> r \<longrightarrow> store ob1 ! q = store ob ! q"
      "feature_label_field ob1 =
        (if Some r = feature_label_field obj then Some r else feature_label_field ob)"
      "field_class ob1 = field_class ob"
    by blast
  from Cons.prems(4) have hs: "\<forall>r\<in>set rs. truthy (id_col (store obj ! r)) \<and>
                fldmap_of obj (the (id_col (store obj ! r))) = Some r" by simp
  have ds: "distinct rs" using Cons.prems(2) by simp
  have dj: "set rs \<inter> set (fields_rel ob1) = {}"
    using Cons.prems(2,3) 1(2) by auto
  from Cons.IH [OF 1(3) ds dj hs] obtain ob' where
    2: "assign_fields (fldmap_of obj) (map (to_desc obj) rs) ob1 = Inr ob'"
      "fields_rel ob' = fields_rel ob1 @ rs" "same_cols (store obj) (store ob')"
      "\<forall>q. q \<notin> set rs \<longrightarrow> store ob' ! q = store ob1 ! q"
      "feature_label_field ob' =
        (if \<exists>r\<in>set rs. Some r = feature_label_field obj then feature_label_field obj
         else feature_label_field ob1)"
      "field_class ob' = field_class ob1"
    by blast
  have a: "assign_fields (fldmap_of obj) (map (to_desc obj) (r # rs)) ob = Inr ob'"
    using 1(1) 2(1) by simp
  have b: "fields_rel ob' = fields_rel ob @ r # rs" using 1(2) 2(2) by simp
  have c: "\<forall>q. q \<notin> set (r # rs) \<longrightarrow> store ob' ! q = store ob ! q"
    using 1(4) 2(4) by simp
  have d: "feature_label_field ob' =
        (if \<exists>q\<in>set (r # rs). Some q = feature_label_field obj then feature_label_field obj
         else feature_label_field ob)"
  proof (cases "\<exists>q\<in>set rs. Some q = feature_label_field obj")
    case True
    then show ?thesis using 2(5) by simp
  next
    case False
    then have "feature_label_field ob' = feature_label_field ob1" using 2(5) by simp
    then show ?thesis using False 1(5) by simp
  qed
  have e: "field_class ob' = field_class ob" using 1(6) 2(6) by simp
  show ?case using a b 2(3) c d e by blast
qed

lemma find_unique:
  "r \<in> set xs \<Longrightarrow> P r \<Longrightarrow> \<forall>x\<in>set xs. P x \<longrightarrow> x = r \<Longrightarrow> List.find P xs = Some r"
proof (induction xs)
  case Nil
  then show ?case by simp
next
  case (Cons a xs)
  show ?case
  proof (cases "P a")
    case True
    then have "a = r" using Cons.prems(3) by simp
    then show ?thesis using True by simp
  next
    case False
    then have m: "r \<in> set xs" using Cons.prems(1,2) by auto
    have u: "\<forall>x\<in>set xs. P x \<longrightarrow> x = r" using Cons.prems(3) by simp
    have "List.find P xs = Some r" by (rule Cons.IH [OF m Cons.prems(2) u])
    then show ?thesis using False by simp
  qed
qed

lemma fldmap_of_unique:
  assumes d: "distinct (map (\<lambda>r. id_col (store obj ! r)) (fields_rel obj))"
    and r: "r \<in> set (fields_rel obj)" and t: "truthy (id_col (store obj ! r))"
  shows "fldmap_of obj (the (id_col (store obj ! r))) = Some r"
proof -
  from truthy_Some [OF t] obtain k where k: "id_col (store obj ! r) = Some k" "k \<noteq> 0" by blast
  have inj: "inj_on (\<lambda>r. id_col (store obj ! r)) (set (fields_rel obj))"
    using d distinct_map [of "\<lambda>r. id_col (store obj ! r)" "fields_rel obj"] by blast
  have "x = r" if "x \<in> set (fields_rel obj)" "has_id (store obj) k x" for x
  proof -
    have "id_col (store obj ! x) = id_col (store obj ! r)"
      using that(2) k(1) by (simp add: has_id_def)
    then show ?thesis by (rule inj_onD [OF inj _ that(1) r])
  qed
  then have uq: "\<forall>x\<in>set (fields_rel obj). has_id (store obj) k x \<longrightarrow> x = r" by blast
  have hk: "has_id (store obj) k r" using k by (simp add: has_id_def)
  have "List.find (has_id (store obj) k) (fields_rel obj) = Some r"
    by (rule find_unique [OF r hk uq])
  then have "fldmap_of obj k = Some r" by (simp add: fldmap_of_def)
  then show ?thesis by (simp add: k(1))
qed

lemma setter_getter:
  assumes wf: "wf_layer obj"
    and t: "\<forall>r\<in>set (fields_rel obj). truthy (id_col (store obj ! r))"
    and d: "distinct (map (\<lambda>r. id_col (store obj ! r)) (fields_rel obj))"
    and l: "feature_label_field obj = None \<or>
            (\<exists>r\<in>set (fields_rel obj). feature_label_field obj = Some r)"
  shows "\<exists>o2. setter obj (getter obj) = Inr (reorder o2) \<and>
      fields_rel o2 = fields_rel obj \<and> same_cols (store obj) (store o2) \<and>
      (\<forall>q. q \<notin> set (fields_rel obj) \<longrightarrow> store o2 ! q = store obj ! q) \<and>
      feature_label_field o2 = feature_label_field obj \<and>
      field_class o2 = field_class obj"
proof -
  from setter_unfold [of obj "getter obj"] obtain o1 where
    o1: "fields_rel o1 = kept obj" "same_cols (store obj) (store o1)"
      "\<forall>r. r \<notin> set (fields_rel obj) \<longrightarrow> store o1 ! r = store obj ! r"
      "feature_label_field o1 = None" "field_class o1 = field_class obj"
    and s: "setter obj (getter obj) =
        (case assign_fields (fldmap_of obj) (getter obj) o1 of
           Inl e \<Rightarrow> Inl e | Inr obj2 \<Rightarrow> Inr (reorder obj2))"
    by blast
  have h: "\<forall>r\<in>set (fields_rel obj). truthy (id_col (store obj ! r)) \<and>
                fldmap_of obj (the (id_col (store obj ! r))) = Some r"
    using t fldmap_of_unique [OF d] by blast
  have df: "distinct (fields_rel obj)" using wf by (simp add: wf_layer_def)
  have dj: "set (fields_rel obj) \<inter> set (fields_rel o1) = {}"
    using o1(1) kept_Nil [OF t] by simp
  from assign_fields_to_desc [OF h o1(2) df dj] obtain o2 where
    o2: "assign_fields (fldmap_of obj) (map (to_desc obj) (fields_rel obj)) o1 = Inr o2"
      "fields_rel o2 = fields_rel o1 @ fields_rel obj" "same_cols (store obj) (store o2)"
      "\<forall>q. q \<notin> set (fields_rel obj) \<longrightarrow> store o2 ! q = store o1 ! q"
      "feature_label_field o2 =
        (if \<exists>r\<in>set (fields_rel obj). Some r = feature_label_field obj
         then feature_label_field obj else feature_label_field o1)"
      "field_class o2 = field_class o1"
    by blast
  have "setter obj (getter obj) = Inr (reorder o2)"
    using s o2(1) by (simp add: getter_def)
  moreover have "fields_rel o2 = fields_rel obj"
    using o2(2) o1(1) kept_Nil [OF t] by simp
  moreover have "\<forall>q. q \<notin> set (fields_rel obj) \<longrightarrow> store o2 ! q = store obj ! q"
    using o2(4) o1(3) by simp
  moreover have "feature_label_field o2 = feature_label_field obj"
  proof (cases "feature_label_field obj")
    case None
    then show ?thesis using o2(5) o1(4) by simp
  next
    case (Some a)
    then have "\<exists>r\<in>set (fields_rel obj). Some r = feature_label_field obj" using l by auto
    then show ?thesis using o2(5) by simp
  qed
  moreover have "field_class o2 = field_class obj" using o2(6) o1(5) by simp
  ultimately show ?thesis using o2(3) by blast
qed

subsection \<open>Claim C3\<close>

text \<open>
  Claim C3, as the code has it. For a layer whose collection holds objects of the
  store, none twice, whose fields all have truthy ids (neither null nor zero), pairwise
  different, and whose label field is none or one of its fields: writing back the payload
  just read returns; the collection, its order, the label field and the store's size are
  unchanged; every field of the layer keeps all its attributes except that \<open>idx\<close>
  becomes its position; objects outside the collection are untouched; and when every
  \<open>idx\<close> was the field's position already, the layer is unchanged altogether.
\<close>

theorem setter_getter_roundtrip:
  "wf_layer obj \<Longrightarrow>
   \<forall>r\<in>set (fields_rel obj). truthy (id_col (store obj ! r)) \<Longrightarrow>
   distinct (map (\<lambda>r. id_col (store obj ! r)) (fields_rel obj)) \<Longrightarrow>
   feature_label_field obj = None \<or>
     (\<exists>r\<in>set (fields_rel obj). feature_label_field obj = Some r) \<Longrightarrow>
   \<exists>obj'. setter obj (getter obj) = Inr obj' \<and>
     fields_rel obj' = fields_rel obj \<and>
     feature_label_field obj' = feature_label_field obj \<and>
     field_class obj' = field_class obj \<and>
     length (store obj') = length (store obj) \<and>
     (\<forall>p<length (fields_rel obj).
        store obj' ! (fields_rel obj ! p) = (store obj ! (fields_rel obj ! p))\<lparr>idx := Some (int p)\<rparr>) \<and>
     (\<forall>q. q \<notin> set (fields_rel obj) \<longrightarrow> store obj' ! q = store obj ! q) \<and>
     ((\<forall>p<length (fields_rel obj). idx (store obj ! (fields_rel obj ! p)) = Some (int p)) \<longrightarrow>
        obj' = obj)"
proof -
  assume wf: "wf_layer obj"
    and t: "\<forall>r\<in>set (fields_rel obj). truthy (id_col (store obj ! r))"
    and d: "distinct (map (\<lambda>r. id_col (store obj ! r)) (fields_rel obj))"
    and l: "feature_label_field obj = None \<or>
            (\<exists>r\<in>set (fields_rel obj). feature_label_field obj = Some r)"
  have df: "distinct (fields_rel obj)" using wf by (simp add: wf_layer_def)
  from setter_getter [OF wf t d l] obtain o2 where
    o2: "setter obj (getter obj) = Inr (reorder o2)" "fields_rel o2 = fields_rel obj"
      "same_cols (store obj) (store o2)"
      "\<forall>q. q \<notin> set (fields_rel obj) \<longrightarrow> store o2 ! q = store obj ! q"
      "feature_label_field o2 = feature_label_field obj" "field_class o2 = field_class obj"
    by blast
  let ?fs = "fields_rel obj"
  let ?st = "reorder_from 0 ?fs (store o2)"
  have st: "store (reorder o2) = ?st" by (simp add: reorder_def o2(2))
  have len: "length ?st = length (store obj)"
    by (simp add: length_reorder_from same_cols_length [OF o2(3)])
  have sc: "same_cols (store obj) ?st"
    using same_cols_trans [OF o2(3) same_cols_reorder_from] .
  have dist: "distinct ?fs" by (rule df)
  have bound: "\<forall>e\<in>set ?fs. e < length (store o2)"
    using wf same_cols_length [OF o2(3)] by (simp add: wf_layer_def)
  have at: "?st ! (?fs ! p) = (store obj ! (?fs ! p))\<lparr>idx := Some (int p)\<rparr>"
    if p: "p < length ?fs" for p
  proof -
    have i: "idx (?st ! (?fs ! p)) = Some (int (0 + p))"
      by (rule reorder_from_idx [OF dist bound p])
    have "?st ! (?fs ! p) = (?st ! (?fs ! p))\<lparr>idx := Some (int p)\<rparr>"
      using idx_update_same [of "?st ! (?fs ! p)" "Some (int p)"] i by simp
    also have "\<dots> = (store obj ! (?fs ! p))\<lparr>idx := Some (int p)\<rparr>"
      by (rule same_cols_nth [OF sc])
    finally show ?thesis .
  qed
  have out: "?st ! q = store obj ! q" if "q \<notin> set ?fs" for q
    using that o2(4) by (simp add: reorder_from_other)
  have same: "reorder o2 = obj"
    if pos: "\<forall>p<length ?fs. idx (store obj ! (?fs ! p)) = Some (int p)"
  proof -
    have "?st ! q = store obj ! q" for q
    proof (cases "q \<in> set ?fs")
      case True
      then obtain p where p: "p < length ?fs" "q = ?fs ! p" by (auto simp: in_set_conv_nth)
      have "?st ! q = (store obj ! q)\<lparr>idx := Some (int p)\<rparr>" using at [OF p(1)] p(2) by simp
      also have "\<dots> = store obj ! q"
        using pos p by (intro idx_update_same) simp
      finally show ?thesis .
    next
      case False
      then show ?thesis by (rule out)
    qed
    then have "?st = store obj" using len by (intro nth_equalityI) simp_all
    then have "store (reorder o2) = store obj" using st by simp
    moreover have "fields_rel (reorder o2) = fields_rel obj"
      "feature_label_field (reorder o2) = feature_label_field obj"
      "field_class (reorder o2) = field_class obj"
      using o2(2,5,6) by (simp_all add: reorder_def)
    ultimately show ?thesis by (intro layer.equality) simp_all
  qed
  have "fields_rel (reorder o2) = fields_rel obj"
    "feature_label_field (reorder o2) = feature_label_field obj"
    "field_class (reorder o2) = field_class obj"
    using o2(2,5,6) by (simp_all add: reorder_def)
  moreover have "length (store (reorder o2)) = length (store obj)" using st len by simp
  moreover have "\<forall>p<length ?fs.
      store (reorder o2) ! (?fs ! p) = (store obj ! (?fs ! p))\<lparr>idx := Some (int p)\<rparr>"
    using at st by simp
  moreover have "\<forall>q. q \<notin> set ?fs \<longrightarrow> store (reorder o2) ! q = store obj ! q"
    using out st by simp
  ultimately show ?thesis using o2(1) same by blast
qed

theorem setter_getter_roundtrip_witness:
  "setter persisted_layer (getter persisted_layer) = Inr persisted_layer"
proof -
  have t: "\<forall>r\<in>set (fields_rel persisted_layer). truthy (id_col (store persisted_layer ! r))"
    by (simp add: persisted_layer_def sample_store_def truthy_def)
  have d: "distinct (map (\<lambda>r. id_col (store persisted_layer ! r)) (fields_rel persisted_layer))"
    by (simp add: persisted_layer_def sample_store_def)
  have l: "feature_label_field persisted_layer = None \<or>
     (\<exists>r\<in>set (fields_rel persisted_layer). feature_label_field persisted_layer = Some r)"
    by (simp add: persisted_layer_def)
  have p: "\<forall>p<length (fields_rel persisted_layer).
      idx (store persisted_layer ! (fields_rel persisted_layer ! p)) = Some (int p)"
    by (auto simp add: persisted_layer_def sample_store_def less_Suc_eq)
  from setter_getter_roundtrip [OF persisted_wf t d l] obtain obj' where
    "setter persisted_layer (getter persisted_layer) = Inr obj'"
    "(\<forall>p<length (fields_rel persisted_layer).
        idx (store persisted_layer ! (fields_rel persisted_layer ! p)) = Some (int p)) \<longrightarrow>
     obj' = persisted_layer"
    by blast
  with p show ?thesis by simp
qed

text \<open>
  A layer whose only field has id 0: the field has an id, yet writing back the payload
  read from the layer leaves it with two fields, the second newly created.
\<close>

theorem setter_getter_roundtrip_counterexample:
  "id_col (store zero_layer ! 0) = Some 0 \<and> fields_rel zero_layer = [0] \<and>
   setter zero_layer (getter zero_layer) = Inr zero_roundtrip \<and>
   fields_rel zero_roundtrip = [0, 1]"
  by (simp add: setter_eval getter_def to_desc_def zero_layer_def zero_roundtrip_def)

subsection \<open>Claim C2\<close>





section \<open>Properties of the application bootstrap\<close>

subsection \<open>The configurator's call log\<close>

lemma cfg_calls_call: "cfg_calls (call c cfg) = cfg_calls cfg @ [c]"
  by (simp add: call_def)

lemma cfg_settings_call: "cfg_settings (call c cfg) = cfg_settings cfg"
  by (simp add: call_def)

lemma cfg_calls_foldl:
  "cfg_calls (foldl (\<lambda>c comp. call (f comp) c) cfg xs) = cfg_calls cfg @ map f xs"
  by (induction xs arbitrary: cfg) (simp_all add: cfg_calls_call)

lemma cfg_settings_foldl:
  "cfg_settings (foldl (\<lambda>c comp. call (f comp) c) cfg xs) = cfg_settings cfg"
  by (induction xs arbitrary: cfg) (simp_all add: cfg_settings_call)

lemmas cfg_simps = cfg_calls_call cfg_settings_call cfg_calls_foldl cfg_settings_foldl

lemma filter_is_hook_pyramid: "filter is_hook (map SetupPyramid xs) = map SetupPyramid xs"
  by (induction xs) simp_all

lemma filter_is_hook_routes: "filter is_hook (map SetupRoutes xs) = map SetupRoutes xs"
  by (induction xs) simp_all

lemma count_list_map_inj: "inj f \<Longrightarrow> count_list (map f xs) (f x) = count_list xs x"
  by (induction xs) (auto dest: injD)

lemma count_list_pyramid_routes: "count_list (map SetupPyramid xs) (SetupRoutes x) = 0"
  by (induction xs) simp_all

lemma count_list_routes_pyramid: "count_list (map SetupRoutes xs) (SetupPyramid x) = 0"
  by (induction xs) simp_all

lemma count_list_distinct: "distinct xs \<Longrightarrow> x \<in> set xs \<Longrightarrow> count_list xs x = 1"
  by (induction xs) auto

subsection \<open>The secret\<close>

text \<open>
  Claim C6. When the merged settings lack the key \<open>secret\<close>, \<open>make_app\<close> raises the
  assertion error, having so far only set the request property and included the
  transaction manager. When they have it, no assertion error is raised and the
  authentication policy is registered with that secret. In every run, an authentication
  policy found among the configurator's calls carries the secret of the merged settings.
\<close>

theorem make_app_secret:
  "(''secret'' \<notin> dom (self_settings ++ given) \<longrightarrow>
      raised (make_app md5 p self_settings self_env (Some given) w) =
        Some (AssertionError ''Secret not set!'') \<and>
      (\<exists>c. config (make_app md5 p self_settings self_env (Some given) w) = Some c \<and>
           cfg_calls c = [SetRequestProperty ''env'', Include ''pyramid_tm''])) \<and>
   (''secret'' \<in> dom (self_settings ++ given) \<longrightarrow>
      (\<forall>m. raised (make_app md5 p self_settings self_env (Some given) w) \<noteq>
             Some (AssertionError m)) \<and>
      (\<exists>c. config (make_app md5 p self_settings self_env (Some given) w) = Some c \<and>
           SetAuthenticationPolicy (the ((self_settings ++ given) ''secret''))
             \<in> set (cfg_calls c))) \<and>
   (\<forall>c sec. config (make_app md5 p self_settings self_env settings_arg w) = Some c \<longrightarrow>
        SetAuthenticationPolicy sec \<in> set (cfg_calls c) \<longrightarrow>
        (\<exists>s. settings_arg = Some s \<and> (self_settings ++ s) ''secret'' = Some sec))"
  apply (intro conjI impI allI)
  subgoal by (simp add: make_app_def Let_def)
  subgoal by (simp add: make_app_def Let_def cfg_simps)
  subgoal
    by (auto simp add: make_app_def Let_def try_freeze_def
        split: pip.splits prod.splits sum.splits)
  subgoal
    by (auto simp add: make_app_def Let_def cfg_simps try_freeze_def
        split: pip.splits prod.splits sum.splits)
  subgoal for c sec
    by (cases settings_arg)
       (auto simp add: make_app_def Let_def cfg_simps try_freeze_def
          split: pip.splits prod.splits sum.splits if_splits)
  done

theorem make_app_secret_witness:
  "raised (make_app (\<lambda>s. ''0f'') (FreezeReturns ''pip==1.5'') Map.empty
             \<lparr>components = [''core'', ''pyramid'']\<rparr> (Some [''debug'' \<mapsto> ''1''])
             \<lparr>sys_stdout = Stream 1, written = (\<lambda>s. [])\<rparr>)
     = Some (AssertionError ''Secret not set!'') \<and>
   (\<exists>c. config (make_app (\<lambda>s. ''0f'') (FreezeReturns ''pip==1.5'') [''secret'' \<mapsto> ''k1'']
             \<lparr>components = [''core'', ''pyramid'']\<rparr> (Some [''debug'' \<mapsto> ''1''])
             \<lparr>sys_stdout = Stream 1, written = (\<lambda>s. [])\<rparr>) = Some c \<and>
        SetAuthenticationPolicy ''k1'' \<in> set (cfg_calls c))"
proof -
  have a: "''secret'' \<notin> dom (Map.empty ++ [''debug'' \<mapsto> ''1''])"
    by simp
  have b: "''secret'' \<in> dom ([''secret'' \<mapsto> ''k1''] ++ [''debug'' \<mapsto> ''1''])"
    by simp
  have v: "the (([''secret'' \<mapsto> ''k1''] ++ [''debug'' \<mapsto> ''1'']) ''secret'') = ''k1''"
    by (simp add: map_add_def)
  show ?thesis
    using a b v
      make_app_secret [of Map.empty "[''debug'' \<mapsto> ''1'']" "\<lambda>s. ''0f''"
        "FreezeReturns ''pip==1.5''" "\<lparr>components = [''core'', ''pyramid'']\<rparr>"
        "\<lparr>sys_stdout = Stream 1, written = (\<lambda>s. [])\<rparr>"]
      make_app_secret [of "[''secret'' \<mapsto> ''k1'']" "[''debug'' \<mapsto> ''1'']" "\<lambda>s. ''0f''"
        "FreezeReturns ''pip==1.5''" "\<lparr>components = [''core'', ''pyramid'']\<rparr>"
        "\<lparr>sys_stdout = Stream 1, written = (\<lambda>s. [])\<rparr>"]
    by simp
qed

subsection \<open>The hooks\<close>

text \<open>
  Claim C7. In a run of \<open>make_app\<close> that returns the configurator, the hook
  invocations among its calls are \<open>setup_pyramid\<close> on every registered component in
  registration order, followed by \<open>setup_routes\<close> on every registered component in
  registration order; identities being the distinct keys of the registry, each hook is
  invoked exactly once on each component.
\<close>

theorem make_app_hooks:
  "raised (make_app md5 p self_settings self_env settings_arg w) = None \<Longrightarrow>
   \<exists>c. config (make_app md5 p self_settings self_env settings_arg w) = Some c \<and>
       filter is_hook (cfg_calls c) =
         map SetupPyramid (components self_env) @ map SetupRoutes (components self_env) \<and>
       (distinct (components self_env) \<longrightarrow>
          (\<forall>comp\<in>set (components self_env).
             count_list (cfg_calls c) (SetupPyramid comp) = 1 \<and>
             count_list (cfg_calls c) (SetupRoutes comp) = 1))"
proof (cases settings_arg)
  case None
  assume "raised (make_app md5 p self_settings self_env settings_arg w) = None"
  with None show ?thesis by (simp add: make_app_def)
next
  case (Some given)
  assume ok: "raised (make_app md5 p self_settings self_env settings_arg w) = None"
  have inj: "inj SetupPyramid" "inj SetupRoutes" by (simp_all add: inj_def)
  from ok Some obtain c where
    c: "config (make_app md5 p self_settings self_env settings_arg w) = Some c"
    and calls: "\<exists>pre. cfg_calls c = pre @ map SetupPyramid (components self_env) @
            map SetupRoutes (components self_env) @ [Scan] \<and> filter is_hook pre = [] \<and>
            (\<forall>x. count_list pre (SetupPyramid x) = 0 \<and> count_list pre (SetupRoutes x) = 0)"
    by (auto simp add: make_app_def Let_def cfg_simps try_freeze_def chain_def itervalues_def
        split: pip.splits prod.splits sum.splits if_splits)
  then obtain pre where
    pre: "cfg_calls c = pre @ map SetupPyramid (components self_env) @
            map SetupRoutes (components self_env) @ [Scan]"
      "filter is_hook pre = []"
      "\<And>x. count_list pre (SetupPyramid x) = 0"
      "\<And>x. count_list pre (SetupRoutes x) = 0"
    by blast
  have 1: "filter is_hook (cfg_calls c) =
         map SetupPyramid (components self_env) @ map SetupRoutes (components self_env)"
    by (simp add: pre filter_is_hook_pyramid filter_is_hook_routes)
  have 2: "count_list (cfg_calls c) (SetupPyramid comp) = 1 \<and>
             count_list (cfg_calls c) (SetupRoutes comp) = 1"
    if "distinct (components self_env)" "comp \<in> set (components self_env)" for comp
    using that
    by (simp add: pre count_list_map_inj [OF inj(1)] count_list_map_inj [OF inj(2)]
        count_list_pyramid_routes count_list_routes_pyramid count_list_distinct)
  show ?thesis using c 1 2 by blast
qed

theorem make_app_hooks_witness:
  "\<exists>c. config (make_app (\<lambda>s. ''0f'') (FreezeReturns ''pip==1.5'') [''secret'' \<mapsto> ''k1'']
             \<lparr>components = [''core'', ''pyramid'']\<rparr> (Some Map.empty)
             \<lparr>sys_stdout = Stream 1, written = (\<lambda>s. [])\<rparr>) = Some c \<and>
       filter is_hook (cfg_calls c) =
         [SetupPyramid ''core'', SetupPyramid ''pyramid'',
          SetupRoutes ''core'', SetupRoutes ''pyramid''] \<and>
       count_list (cfg_calls c) (SetupRoutes ''pyramid'') = 1"
proof -
  have ok: "raised (make_app (\<lambda>s. ''0f'') (FreezeReturns ''pip==1.5'') [''secret'' \<mapsto> ''k1'']
             \<lparr>components = [''core'', ''pyramid'']\<rparr> (Some Map.empty)
             \<lparr>sys_stdout = Stream 1, written = (\<lambda>s. [])\<rparr>) = None"
    by (simp add: make_app_def Let_def try_freeze_def)
  show ?thesis
    using make_app_hooks [OF ok] by auto
qed

subsection \<open>Standard output\<close>

text \<open>
  Claim C9. Whatever the arguments, whatever pip does (the import failing, the freeze
  listing raising or returning) and whether or not the run raises, \<open>sys.stdout\<close> after
  \<open>make_app\<close> is the stream it was before.
\<close>

theorem make_app_restores_stdout:
  "sys_stdout (state (make_app md5 p self_settings self_env settings_arg w)) = sys_stdout w"
  by (simp add: make_app_def Let_def finally_restore_def
      split: option.splits prod.splits sum.splits)

subsection \<open>The templating directory\<close>

text \<open>
  Claim C10. Given caller settings, the settings the configurator is built with hold
  \<open>nextgisweb:templates/\<close> under \<open>mako.directories\<close>, whatever the caller or the
  component supplied for it; under every other key they hold the caller's value where
  the caller supplied one, and the component's own setting otherwise.
\<close>

theorem make_app_mako_directories:
  "\<exists>c. config (make_app md5 p self_settings self_env (Some given) w) = Some c \<and>
       cfg_settings c ''mako.directories'' = Some ''nextgisweb:templates/'' \<and>
       (\<forall>k. k \<noteq> ''mako.directories'' \<longrightarrow>
            cfg_settings c k = (case given k of Some v \<Rightarrow> Some v | None \<Rightarrow> self_settings k))"
  by (simp add: make_app_def Let_def cfg_simps map_add_def
      split: option.splits prod.splits sum.splits)

theorem make_app_mako_directories_witness:
  "\<exists>c. config (make_app (\<lambda>s. ''0f'') ImportFails [''secret'' \<mapsto> ''k1'']
             \<lparr>components = []\<rparr>
             (Some [''mako.directories'' \<mapsto> ''mine/'', ''sqlalchemy.url'' \<mapsto> ''pg''])
             \<lparr>sys_stdout = Stream 1, written = (\<lambda>s. [])\<rparr>) = Some c \<and>
       cfg_settings c ''mako.directories'' = Some ''nextgisweb:templates/'' \<and>
       cfg_settings c ''sqlalchemy.url'' = Some ''pg'' \<and>
       cfg_settings c ''secret'' = Some ''k1''"
proof -
  from make_app_mako_directories [of "\<lambda>s. ''0f''" ImportFails "[''secret'' \<mapsto> ''k1'']"
      "\<lparr>components = []\<rparr>"
      "[''mako.directories'' \<mapsto> ''mine/'', ''sqlalchemy.url'' \<mapsto> ''pg'']"
      "\<lparr>sys_stdout = Stream 1, written = (\<lambda>s. [])\<rparr>"]
  obtain c where
    c: "config (make_app (\<lambda>s. ''0f'') ImportFails [''secret'' \<mapsto> ''k1'']
             \<lparr>components = []\<rparr>
             (Some [''mako.directories'' \<mapsto> ''mine/'', ''sqlalchemy.url'' \<mapsto> ''pg''])
             \<lparr>sys_stdout = Stream 1, written = (\<lambda>s. [])\<rparr>) = Some c"
       "cfg_settings c ''mako.directories'' = Some ''nextgisweb:templates/''"
    and k: "\<forall>k. k \<noteq> ''mako.directories'' \<longrightarrow>
            cfg_settings c k =
              (case [''mako.directories'' \<mapsto> ''mine/'', ''sqlalchemy.url'' \<mapsto> ''pg''] k of
                 Some v \<Rightarrow> Some v | None \<Rightarrow> [''secret'' \<mapsto> ''k1''] k)"
    by blast
  from k have "cfg_settings c ''sqlalchemy.url'' = Some ''pg''" by simp
  moreover from k have "cfg_settings c ''secret'' = Some ''k1''" by simp
  ultimately show ?thesis using c by blast
qed

end
